theory Spec2Isabelle
  imports Main "HOL-Library.Sublist"
begin

section \<open>Strings\<close>

text \<open>
  JavaScript strings are modelled as \<^typ>\<open>string\<close>, a list of 8-bit characters. Case
  folding and white space are the ASCII ones: \<open>toLowerCase\<close> maps \<open>A..Z\<close> to \<open>a..z\<close>
  and leaves every other character alone, and the white space of \<open>trim\<close> and of the
  regular expression class \<open>\s\<close> is space, tab, line feed, vertical tab, form feed
  and carriage return.
\<close>

definition toLowerChar :: "char \<Rightarrow> char" where
  "toLowerChar c =
     (case map_of (zip ''ABCDEFGHIJKLMNOPQRSTUVWXYZ'' ''abcdefghijklmnopqrstuvwxyz'') c of
        None \<Rightarrow> c | Some d \<Rightarrow> d)"

definition toLowerCase :: "string \<Rightarrow> string" where
  "toLowerCase s = map toLowerChar s"

definition isSpace :: "char \<Rightarrow> bool" where
  "isSpace c = (c \<in> set [CHR 0x20, CHR 0x09, CHR 0x0A, CHR 0x0B, CHR 0x0C, CHR 0x0D])"

definition trimStart :: "string \<Rightarrow> string" where
  "trimStart s = dropWhile isSpace s"

definition trimEnd :: "string \<Rightarrow> string" where
  "trimEnd s = rev (dropWhile isSpace (rev s))"

definition trim :: "string \<Rightarrow> string" where
  "trim s = trimEnd (trimStart s)"

fun startsWith :: "string \<Rightarrow> string \<Rightarrow> bool" where
  "startsWith s [] = True"
| "startsWith [] (k # ks) = False"
| "startsWith (c # cs) (k # ks) = (c = k \<and> startsWith cs ks)"

text \<open>\<open>includesStr s k\<close> is \<open>s.includes(k)\<close>: \<open>k\<close> occurs in \<open>s\<close> as a contiguous run.\<close>

fun includesStr :: "string \<Rightarrow> string \<Rightarrow> bool" where
  "includesStr [] k = (k = [])"
| "includesStr (c # cs) k = (startsWith (c # cs) k \<or> includesStr cs k)"

text \<open>\<open>xs.join(sep)\<close>.\<close>

fun join :: "string \<Rightarrow> string list \<Rightarrow> string" where
  "join sep [] = []"
| "join sep [x] = x"
| "join sep (x # y # ys) = x @ sep @ join sep (y # ys)"

section \<open>Thematic classifier (\<open>categorize\<close>, summarize route)\<close>

type_synonym area = "string \<times> (string \<times> int) list"

definition areas :: "area list" where
  "areas =
   [(''Gender in fisheries and aquaculture'',
      [(''fisheries'', 3), (''aquaculture'', 3), (''fisher'', 2), (''fishing'', 2),
       (''fish value chain'', 4), (''marine'', 2), (''coastal'', 2), (''seafood'', 2)]),
    (''Gender in forestry and agroforestry'',
      [(''forestry'', 3), (''forest'', 2), (''agroforestry'', 3), (''woodlot'', 3),
       (''non-timber forest'', 4), (''ntfp'', 3), (''timber'', 2), (''deforestation'', 2)]),
    (''Gender and livestock'',
      [(''livestock'', 3), (''pastoral'', 3), (''pastoralist'', 3), (''herd'', 2),
       (''animal health'', 4), (''small ruminant'', 4), (''cattle'', 2), (''goat'', 2),
       (''sheep'', 2), (''poultry'', 2), (''dairy'', 2)]),
    (''Gender and plant production and protection'',
      [(''plant production'', 4), (''crop'', 2), (''crop production'', 4),
       (''plant protection'', 4), (''ipm'', 3), (''integrated pest'', 4),
       (''seed'', 2), (''agronomy'', 3), (''plant health'', 4), (''pesticide'', 2)]),
    (''Gender and innovative and labour-saving technologies'',
      [(''innovation'', 2), (''innovative'', 2), (''technology'', 2), (''technologies'', 2),
       (''labour-saving'', 4), (''labor-saving'', 4), (''mechanization'', 3),
       (''mechanisation'', 3), (''tools'', 2), (''equipment'', 2), (''digital'', 2),
       (''ict'', 3), (''mobile'', 2), (''app'', 2)]),
    (''Gender and land and water'',
      [(''land tenure'', 4), (''land rights'', 4), (''land'', 2), (''water'', 2),
       (''irrigation'', 3), (''watershed'', 3), (''water management'', 4),
       (''land governance'', 4), (''tenure'', 3), (''property rights'', 3)]),
    (''Gender and climate change, agroecology and biodiversity'',
      [(''climate'', 2), (''climate change'', 4), (''agroecology'', 4),
       (''biodiversity'', 3), (''mitigation'', 3), (''adaptation'', 3),
       (''emissions'', 3), (''ecosystem'', 3), (''nature-based'', 4),
       (''carbon'', 2), (''greenhouse'', 2), (''sustainability'', 2)]),
    (''Gender and emergencies and resilience building'',
      [(''emergency'', 3), (''humanitarian'', 3), (''crisis'', 3), (''conflict'', 3),
       (''resilience'', 3), (''shock'', 3), (''disaster'', 3), (''drm'', 4),
       (''risk management'', 4), (''recovery'', 2), (''relief'', 2)]),
    (''Gender-based violence and protection from sexual exploitation and abuse'',
      [(''gender-based violence'', 4), (''gbv'', 4), (''violence'', 3),
       (''protection from sexual exploitation and abuse'', 5), (''psea'', 4),
       (''harassment'', 3), (''safeguarding'', 3), (''abuse'', 3)]),
    (''Gender and rural financial services'',
      [(''finance'', 2), (''financial services'', 4), (''microfinance'', 4),
       (''credit'', 3), (''loans'', 3), (''savings'', 3), (''remittances'', 3),
       (''banking'', 2), (''financial inclusion'', 4)]),
    (''Gender and decent rural employment and child labour'',
      [(''decent work'', 4), (''decent employment'', 4), (''rural employment'', 4),
       (''child labour'', 4), (''child labor'', 4), (''occupational safety'', 4),
       (''oshea'', 4), (''youth employment'', 4), (''job'', 2), (''workplace'', 2)]),
    (''Gender and investment in sustainable agrifood systems'',
      [(''investment'', 3), (''invest'', 3), (''sustainable agrifood'', 4),
       (''infrastructure'', 3), (''capital'', 3), (''financing'', 3),
       (''public investment'', 4), (''private investment'', 4), (''funding'', 2)]),
    (''Gender and rural advisory services'',
      [(''extension'', 3), (''advisory services'', 4), (''rural advisory'', 4),
       (''farmer field school'', 4), (''ffs'', 4), (''capacity development'', 4),
       (''training'', 2), (''education'', 2), (''knowledge transfer'', 3)]),
    (''Gender-sensitive social protection'',
      [(''social protection'', 4), (''cash transfer'', 4), (''safety net'', 4),
       (''social assistance'', 4), (''insurance'', 3), (''public works'', 3),
       (''welfare'', 2), (''benefits'', 2)]),
    (''Gender-responsive policy making and budgeting'',
      [(''policy'', 2), (''policies'', 2), (''policy-making'', 4), (''policy making'', 4),
       (''budget'', 3), (''budgeting'', 3), (''gender-responsive budget'', 5),
       (''grb'', 4), (''governance'', 2), (''regulation'', 2), (''legislation'', 2),
       (''law'', 2), (''legal'', 2)]),
    (''Gender statistics and sex-disaggregated data'',
      [(''sex-disaggregated'', 4), (''sex disaggregated'', 4), (''gender statistics'', 4),
       (''disaggregated data'', 4), (''indicator'', 3), (''survey'', 3),
       (''census'', 3), (''data collection'', 4), (''gender data'', 4),
       (''statistics'', 2), (''metrics'', 2)]),
    (''Gender and food security and nutrition'',
      [(''food security'', 4), (''nutrition'', 3), (''malnutrition'', 4),
       (''diet'', 2), (''food systems'', 3), (''household food'', 4),
       (''nutritious'', 2), (''hunger'', 2), (''stunting'', 3), (''wasting'', 3)]),
    (''Gender and inclusive food systems and value chains'',
      [(''inclusive'', 2), (''value chain'', 4), (''market access'', 4),
       (''agrifood'', 3), (''food system'', 3), (''processing'', 3),
       (''marketing'', 3), (''inclusive business'', 4), (''trade'', 2),
       (''supply chain'', 3), (''distribution'', 2)]),
    (''Gender analysis, gender mainstreaming and the project cycle'',
      [(''gender analysis'', 4), (''gender mainstreaming'', 4), (''mainstreaming'', 3),
       (''project cycle'', 4), (''logframe'', 3), (''logical framework'', 4),
       (''design phase'', 4), (''implementation phase'', 4),
       (''monitoring and evaluation'', 4), (''m&e'', 3), (''assessment'', 2)]),
    (''Gender equality and women's empowerment'',
      [(''gender equality'', 3), (''women'', 1), (''girls'', 1), (''empower'', 2),
       (''empowerment'', 2), (''leadership'', 2), (''equity'', 2), (''inclusion'', 2),
       (''rights'', 2), (''equal'', 1), (''female'', 1)])]"

definition defaultCategory :: string where
  "defaultCategory = ''Gender equality and women's empowerment''"

text \<open>
  The inner loop of \<open>categorize\<close> over the keyword pairs of one category, with the
  running \<open>score\<close>: a keyword found in the text adds its weight, and one more when the
  keyword contains a space.
\<close>

fun scorePairs :: "string \<Rightarrow> (string \<times> int) list \<Rightarrow> int \<Rightarrow> int" where
  "scorePairs text [] score = score"
| "scorePairs text ((kw, w) # pairs) score =
     scorePairs text pairs
       (if includesStr text kw
        then (score + w) + (if includesStr kw '' '' then 1 else 0)
        else score)"

text \<open>
  The outer loop over the catalogue, with the state \<open>(best, bestScore)\<close>: a category
  replaces the best one only on a strictly greater score.
\<close>

fun scanAreas :: "string \<Rightarrow> area list \<Rightarrow> string \<times> int \<Rightarrow> string \<times> int" where
  "scanAreas text [] (best, bestScore) = (best, bestScore)"
| "scanAreas text ((label, pairs) # rest) (best, bestScore) =
     (let score = scorePairs text pairs 0
      in scanAreas text rest (if score > bestScore then (label, score) else (best, bestScore)))"

definition categorizeText :: "string \<Rightarrow> string \<Rightarrow> string" where
  "categorizeText title summary = toLowerCase (title @ '' '' @ summary)"

definition categorize :: "string \<Rightarrow> string \<Rightarrow> string" where
  "categorize title summary =
     (let text = categorizeText title summary;
          (best, bestScore) = scanAreas text areas (defaultCategory, 0)
      in if bestScore < 2 then defaultCategory else best)"

text \<open>The score of every catalogue category on a lowercased text, in catalogue order.\<close>

definition categoryScores :: "string \<Rightarrow> int list" where
  "categoryScores text = map (\<lambda>(label, pairs). scorePairs text pairs 0) areas"

section \<open>Text normalizer and extractive summarizer (summarize route)\<close>

text \<open>\<open>s.replace(/\s+/g, ' ')\<close>: every maximal run of white space becomes one space.\<close>

function collapseSpaces :: "string \<Rightarrow> string" where
  "collapseSpaces [] = []"
| "collapseSpaces (c # cs) =
     (if isSpace c then CHR '' '' # collapseSpaces (dropWhile isSpace cs)
      else c # collapseSpaces cs)"
  by pat_completeness auto
termination
  by (relation "measure length") (auto simp: less_Suc_eq_le length_dropWhile_le)

definition normalizeSpace :: "string \<Rightarrow> string" where
  "normalizeSpace s = (if trim s = [] then [] else trim (collapseSpaces s))"

definition isTerminal :: "char \<Rightarrow> bool" where
  "isTerminal c = (c \<in> set ''.!?'')"

text \<open>
  \<open>body.split(/(?<=[\.!?])\s+/)\<close>: the separators are the maximal runs of white space
  that directly follow a full stop, an exclamation mark or a question mark; the result
  is the list of the pieces between them, the last of which may be empty.
\<close>

function splitSentences :: "string \<Rightarrow> string list" where
  "splitSentences [] = [[]]"
| "splitSentences (c # cs) =
     (if isTerminal c \<and> cs \<noteq> [] \<and> isSpace (hd cs)
      then [c] # splitSentences (dropWhile isSpace cs)
      else (case splitSentences cs of
              [] \<Rightarrow> [[c]]
            | p # ps \<Rightarrow> (c # p) # ps))"
  by pat_completeness auto
termination
  by (relation "measure length") (auto simp: less_Suc_eq_le length_dropWhile_le)

definition sentencesOf :: "string \<Rightarrow> string list" where
  "sentencesOf body = filter (\<lambda>s. s \<noteq> []) (map trim (splitSentences body))"

definition stop :: "string list" where
  "stop = [''a'', ''an'', ''the'', ''and'', ''or'', ''but'', ''if'', ''while'', ''of'', ''for'',
     ''on'', ''in'', ''at'', ''to'', ''from'', ''by'', ''with'', ''as'', ''is'', ''are'', ''was'',
     ''were'', ''be'', ''been'', ''being'', ''this'', ''that'', ''those'', ''these'', ''it'',
     ''its'', ''they'', ''them'', ''their'', ''we'', ''our'', ''you'', ''your'', ''he'', ''she'',
     ''his'', ''her'', ''not'', ''no'', ''yes'', ''do'', ''does'', ''did'']"

definition isWordChar :: "char \<Rightarrow> bool" where
  "isWordChar c = (c \<in> set ''abcdefghijklmnopqrstuvwxyz'' \<or> c = CHR 0x27)"

text \<open>\<open>s.match(/[a-z']+/g) || []\<close>: the maximal runs of lower-case letters and apostrophes.\<close>

function matchWords :: "string \<Rightarrow> string list" where
  "matchWords [] = []"
| "matchWords (c # cs) =
     (if isWordChar c
      then (c # takeWhile isWordChar cs) # matchWords (dropWhile isWordChar cs)
      else matchWords cs)"
  by pat_completeness auto
termination
  by (relation "measure length") (auto simp: less_Suc_eq_le length_dropWhile_le)

text \<open>
  The frequency table \<open>freq\<close>, a map from word to count, filled by the loop over the
  words of the body: stop words and words of at most two characters are skipped.
  The table is a plain object, which also answers for the names it inherits; the one
  such name made of lower-case letters is \<open>constructor\<close>, and the model looks this word
  up like any other.
\<close>

fun countWords :: "string list \<Rightarrow> (string \<rightharpoonup> int) \<Rightarrow> (string \<rightharpoonup> int)" where
  "countWords [] freq = freq"
| "countWords (w # ws) freq =
     (if w \<in> set stop \<or> length w \<le> 2 then countWords ws freq
      else countWords ws (freq(w \<mapsto> (case freq w of None \<Rightarrow> 0 | Some n \<Rightarrow> n) + 1)))"

text \<open>The score of a sentence: \<open>reduce\<close> over its words, adding \<open>freq[w] || 0\<close>.\<close>

definition sentenceScore :: "(string \<rightharpoonup> int) \<Rightarrow> string \<Rightarrow> int" where
  "sentenceScore freq s =
     fold (\<lambda>w a. a + (case freq w of None \<Rightarrow> 0 | Some n \<Rightarrow> n)) (matchWords (toLowerCase s)) 0"

text \<open>
  \<open>xs.sort(cmp)\<close>: the sort is stable and ascending for \<open>cmp\<close>, an element going before
  the first one it does not compare greater than.
\<close>

fun insertBy :: "('a \<Rightarrow> 'a \<Rightarrow> int) \<Rightarrow> 'a \<Rightarrow> 'a list \<Rightarrow> 'a list" where
  "insertBy cmp x [] = [x]"
| "insertBy cmp x (y # ys) = (if cmp x y \<le> 0 then x # y # ys else y # insertBy cmp x ys)"

definition sortBy :: "('a \<Rightarrow> 'a \<Rightarrow> int) \<Rightarrow> 'a list \<Rightarrow> 'a list" where
  "sortBy cmp xs = foldr (insertBy cmp) xs []"

text \<open>
  \<open>xs.slice(start, fin)\<close> on integers: a negative bound counts from the end of the
  array, and both bounds are cut to the array.
\<close>

definition slice :: "int \<Rightarrow> int \<Rightarrow> 'a list \<Rightarrow> 'a list" where
  "slice start fin xs =
     (let n = int (length xs);
          k = (if start < 0 then max (n + start) 0 else min start n);
          e = (if fin < 0 then max (n + fin) 0 else min fin n)
      in take (nat (e - k)) (drop (nat k) xs))"

text \<open>The array \<open>top\<close>: the positions of the chosen sentences, in ascending order.\<close>

definition topIndices :: "string \<Rightarrow> string list \<Rightarrow> int \<Rightarrow> nat list" where
  "topIndices body sentences maxSentences =
     (let words = matchWords (toLowerCase body);
          freq = countWords words Map.empty;
          scored = map (\<lambda>i. (i, sentenceScore freq (sentences ! i))) [0..<length sentences];
          sorted = sortBy (\<lambda>a b. snd b - snd a) scored
      in sortBy (\<lambda>a b. int a - int b) (map fst (slice 0 maxSentences sorted)))"

definition summarizeExtractive :: "string \<Rightarrow> int \<Rightarrow> string" where
  "summarizeExtractive text maxSentences =
     (let body = normalizeSpace text in
      if body = [] then []
      else let sentences = sentencesOf body in
        if int (length sentences) \<le> maxSentences then join '' '' sentences
        else join '' '' (map (\<lambda>i. sentences ! i) (topIndices body sentences maxSentences)))"

section \<open>Content records and query parameters (metrics and items routes)\<close>

text \<open>
  A \<open>Row\<close> of a dataset: every field is optional. \<open>year\<close> and \<open>month\<close> are a number or
  a string; numbers are modelled as integers. The field \<open>f\<close> of the source is \<open>row_f\<close>.
\<close>

datatype numOrStr = Num int | Str string

record row =
  row_section :: "string option"
  row_category :: "string option"
  row_title :: "string option"
  row_date :: "string option"
  row_date_iso :: "string option"
  row_year :: "numOrStr option"
  row_month :: "numOrStr option"
  row_url :: "string option"
  row_summary :: "string option"

text \<open>
  The search parameters of a request URL, the parameter \<open>p\<close> being \<open>q_p\<close>;
  \<open>searchParams.get\<close> gives \<open>null\<close>, here \<open>None\<close>, for a parameter that is absent.
\<close>

record query =
  q_csv :: "string option"
  q_section :: "string option"
  q_category :: "string option"
  q_q :: "string option"
  q_startYm :: "string option"
  q_endYm :: "string option"
  q_limit :: "string option"
  q_offset :: "string option"

text \<open>\<open>x || ''\<close> on an optional string.\<close>

definition orEmpty :: "string option \<Rightarrow> string" where
  "orEmpty x = (case x of None \<Rightarrow> [] | Some s \<Rightarrow> s)"

text \<open>\<open>x || d\<close> on an optional string: the empty string is falsy as well.\<close>

definition orElse :: "string option \<Rightarrow> string \<Rightarrow> string" where
  "orElse x d = (case x of None \<Rightarrow> d | Some s \<Rightarrow> if s = [] then d else s)"

subsection \<open>Numbers and their decimal text\<close>

definition isDigit :: "char \<Rightarrow> bool" where
  "isDigit c = (c \<in> set ''0123456789'')"

definition digitVal :: "char \<Rightarrow> nat" where
  "digitVal c = of_char c - 48"

definition digitChar :: "nat \<Rightarrow> char" where
  "digitChar d = ''0123456789'' ! d"

definition digitsValue :: "string \<Rightarrow> nat" where
  "digitsValue ds = fold (\<lambda>c n. 10 * n + digitVal c) ds 0"

text \<open>\<open>n.toString()\<close> for a non-negative integer, and \<open>String(n)\<close> for an integer.\<close>

function showNat :: "nat \<Rightarrow> string" where
  "showNat n = (if n < 10 then [digitChar n] else showNat (n div 10) @ [digitChar (n mod 10)])"
  by pat_completeness auto
termination
  by (relation "measure id") auto

declare showNat.simps [simp del]

definition showInt :: "int \<Rightarrow> string" where
  "showInt i = (if i < 0 then CHR ''-'' # showNat (nat (- i)) else showNat (nat i))"

text \<open>
  \<open>parseInt(s, 10)\<close>: leading white space is skipped, a sign is read, and the longest
  run of digits that follows is the value; with no digit there the result is \<open>NaN\<close>,
  here \<open>None\<close>.
\<close>

definition parseInt :: "string \<Rightarrow> int option" where
  "parseInt s =
     (let t = dropWhile isSpace s;
          neg = (t \<noteq> [] \<and> hd t = CHR ''-'');
          u = (if t \<noteq> [] \<and> (hd t = CHR ''-'' \<or> hd t = CHR ''+'') then tl t else t);
          ds = takeWhile isDigit u
      in if ds = [] then None
         else Some (if neg then - int (digitsValue ds) else int (digitsValue ds)))"

text \<open>\<open>s.padStart(n, '0')\<close>.\<close>

definition padStart :: "nat \<Rightarrow> string \<Rightarrow> string" where
  "padStart n s = replicate (n - length s) (CHR ''0'') @ s"

text \<open>\<open>/^\d+$/.test(s)\<close>.\<close>

definition allDigits :: "string \<Rightarrow> bool" where
  "allDigits s = (s \<noteq> [] \<and> list_all isDigit s)"

text \<open>\<open>String(x || '')\<close> for a \<open>year\<close> or \<open>month\<close> field: a missing field, the number 0 and
  the empty string are falsy.\<close>

definition fieldText :: "numOrStr option \<Rightarrow> string" where
  "fieldText x =
     (case x of
        None \<Rightarrow> []
      | Some (Num n) \<Rightarrow> if n = 0 then [] else showInt n
      | Some (Str s) \<Rightarrow> s)"

subsection \<open>String helpers\<close>

text \<open>\<open>s.split(c)\<close> for a one-character separator.\<close>

fun splitChar :: "char \<Rightarrow> string \<Rightarrow> string list" where
  "splitChar sep [] = [[]]"
| "splitChar sep (c # cs) =
     (if c = sep then [] # splitChar sep cs
      else (case splitChar sep cs of
              [] \<Rightarrow> [[c]]
            | p # ps \<Rightarrow> (c # p) # ps))"

text \<open>The comparison \<open>a < b\<close> of two strings: lexicographic on the character codes.\<close>

fun strLess :: "string \<Rightarrow> string \<Rightarrow> bool" where
  "strLess [] [] = False"
| "strLess [] (y # ys) = True"
| "strLess (x # xs) [] = False"
| "strLess (x # xs) (y # ys) =
     ((of_char x :: nat) < of_char y \<or> (x = y \<and> strLess xs ys))"

text \<open>The comparator of \<open>xs.sort()\<close> without an argument, on strings.\<close>

definition strCompare :: "string \<Rightarrow> string \<Rightarrow> int" where
  "strCompare a b = (if strLess a b then - 1 else if strLess b a then 1 else 0)"

text \<open>\<open>Array.from(new Set(xs))\<close>: the first occurrence of every element, in order.\<close>

definition dedupe :: "'a list \<Rightarrow> 'a list" where
  "dedupe xs = fold (\<lambda>x acc. if x \<in> set acc then acc else acc @ [x]) xs []"

text \<open>\<open>key(s) = s.replace('-', '')\<close>: the first hyphen is removed.\<close>

definition ymKey :: "string \<Rightarrow> string" where
  "ymKey s = remove1 (CHR ''-'') s"

subsection \<open>A \<open>Map<string, number>\<close> in insertion order\<close>

fun mapSet :: "string \<Rightarrow> int \<Rightarrow> (string \<times> int) list \<Rightarrow> (string \<times> int) list" where
  "mapSet k v [] = [(k, v)]"
| "mapSet k v ((k', v') # m) = (if k = k' then (k, v) # m else (k', v') # mapSet k v m)"

text \<open>\<open>m.get(k) || 0\<close>.\<close>

definition getOr0 :: "(string \<times> int) list \<Rightarrow> string \<Rightarrow> int" where
  "getOr0 m k = (case map_of m k of None \<Rightarrow> 0 | Some n \<Rightarrow> n)"

text \<open>\<open>m.set(k, (m.get(k) || 0) + 1)\<close>.\<close>

definition increment :: "string \<Rightarrow> (string \<times> int) list \<Rightarrow> (string \<times> int) list" where
  "increment k m = mapSet k (getOr0 m k + 1) m"

section \<open>Record merger (\<open>tryRead\<close> and the loading of the corpus)\<close>

text \<open>
  What loading a dataset location gives: the read (or the fetch) fails, the content
  does not parse as a JSON object, or it parses to a payload whose \<open>items\<close> field is an
  array of rows (\<open>Some\<close>) or is missing or not an array (\<open>None\<close>). The file system and the
  network are a function from locations to these outcomes.
\<close>

datatype source = Unreadable | Unparsable | Payload "row list option"

type_synonym world = "string \<Rightarrow> source"

text \<open>\<open>tryRead\<close> of the metrics route; \<open>null\<close> is \<open>None\<close>.\<close>

definition tryReadMetrics :: "world \<Rightarrow> string \<Rightarrow> row list option" where
  "tryReadMetrics w pathStr =
     (case w pathStr of
        Unreadable \<Rightarrow> None
      | Unparsable \<Rightarrow> None
      | Payload items \<Rightarrow>
          (let arr = (case items of Some a \<Rightarrow> a | None \<Rightarrow> [])
           in if length arr > 0 then Some arr else Some []))"

text \<open>
  \<open>tryRead\<close> of the items route. A location with an http(s) scheme is fetched and any
  other is read from disk; both are the world's outcome at that location, a response
  that is not ok being \<open>Unreadable\<close>.
\<close>

definition tryReadItems :: "world \<Rightarrow> string \<Rightarrow> row list option" where
  "tryReadItems w pathStr =
     (case w pathStr of
        Unreadable \<Rightarrow> None
      | Unparsable \<Rightarrow> None
      | Payload items \<Rightarrow> Some (case items of Some a \<Rightarrow> a | None \<Rightarrow> []))"

text \<open>\<open>path.join(publicDir, ...)\<close> for the six default datasets, in their order.\<close>

definition defaultPublicPaths :: "string \<Rightarrow> string list" where
  "defaultPublicPaths publicDir =
     [publicDir @ ''/news.json'',
      publicDir @ ''/insights.json'',
      publicDir @ ''/success-stories.json'',
      publicDir @ ''/e-learning.json'',
      publicDir @ ''/publications.json'',
      publicDir @ ''/output/news.json'']"

text \<open>The loop over the default datasets: \<open>rows = rows.concat(arr)\<close> when \<open>arr\<close> is not \<open>null\<close>.\<close>

fun mergeSources :: "(string \<Rightarrow> row list option) \<Rightarrow> string list \<Rightarrow> row list \<Rightarrow> row list" where
  "mergeSources tryRead [] rows = rows"
| "mergeSources tryRead (p # ps) rows =
     (case tryRead p of
        None \<Rightarrow> mergeSources tryRead ps rows
      | Some arr \<Rightarrow> mergeSources tryRead ps (rows @ arr))"

text \<open>
  The corpus of a request: the \<open>csv\<close> parameter if it is given, else the location in the
  environment variable \<open>JSON_PATH\<close> (\<open>envJson\<close>) if it is set, else the default datasets.
\<close>

definition loadRows ::
  "(string \<Rightarrow> row list option) \<Rightarrow> string \<Rightarrow> string \<Rightarrow> string \<Rightarrow> row list" where
  "loadRows tryRead csvParam envJson publicDir =
     (if csvParam \<noteq> [] then (case tryRead csvParam of None \<Rightarrow> [] | Some arr \<Rightarrow> [] @ arr)
      else if envJson \<noteq> [] then (case tryRead envJson of None \<Rightarrow> [] | Some arr \<Rightarrow> [] @ arr)
      else mergeSources tryRead (defaultPublicPaths publicDir) [])"

text \<open>The items that a source contributes: its array, if it loaded and has one.\<close>

definition sourceItems :: "source \<Rightarrow> row list" where
  "sourceItems s = (case s of Payload (Some arr) \<Rightarrow> arr | _ \<Rightarrow> [])"

section \<open>Filter and bucketing engine, aggregate statistics (metrics route)\<close>

text \<open>\<open>n.toString()\<close> of the result of \<open>parseInt\<close>.\<close>

definition numText :: "int option \<Rightarrow> string" where
  "numText n = (case n of None \<Rightarrow> ''NaN'' | Some i \<Rightarrow> showInt i)"

definition toYmLabel :: "row \<Rightarrow> string" where
  "toYmLabel r =
     (let di = trim (orEmpty (row_date_iso r));
          fromYearMonth =
            (let y = trim (fieldText (row_year r));
                 m = trim (fieldText (row_month r))
             in if allDigits y \<and> allDigits m
                then padStart 4 (numText (parseInt y)) @ ''-'' @ padStart 2 (numText (parseInt m))
                else ''Unknown'')
      in if di \<noteq> []
         then (case splitChar (CHR ''-'') di of
                 y # m # rest \<Rightarrow> if y \<noteq> [] \<and> m \<noteq> [] then y @ ''-'' @ m else fromYearMonth
               | _ \<Rightarrow> fromYearMonth)
         else fromYearMonth)"

text \<open>
  \<open>sortYmLabels\<close>: the key of a label is 0 for \<open>Unknown\<close> and else \<open>parseInt\<close> of the
  label without its first hyphen; a comparator result \<open>NaN\<close> counts as 0 in a sort.
\<close>

definition ymSortKey :: "string \<Rightarrow> int option" where
  "ymSortKey a = (if a = ''Unknown'' then Some 0 else parseInt (ymKey a))"

definition ymCompare :: "string \<Rightarrow> string \<Rightarrow> int" where
  "ymCompare a b =
     (case (ymSortKey a, ymSortKey b) of
        (Some ka, Some kb) \<Rightarrow> ka - kb
      | _ \<Rightarrow> 0)"

definition sortYmLabels :: "string list \<Rightarrow> string list" where
  "sortYmLabels labels = sortBy ymCompare (dedupe labels)"

text \<open>The filters of a request, as both routes read them from the search parameters.\<close>

definition fSection :: "query \<Rightarrow> string" where
  "fSection qu =
     (let f = toLowerCase (trim (orEmpty (q_section qu))) in if f = ''all'' then [] else f)"

definition fCategory :: "query \<Rightarrow> string" where
  "fCategory qu =
     (let f = toLowerCase (trim (orEmpty (q_category qu))) in if f = ''all'' then [] else f)"

definition fQ :: "query \<Rightarrow> string" where
  "fQ qu = toLowerCase (trim (orEmpty (q_q qu)))"

definition fStart :: "query \<Rightarrow> string" where
  "fStart qu = trim (orEmpty (q_startYm qu))"

definition fEnd :: "query \<Rightarrow> string" where
  "fEnd qu = trim (orEmpty (q_endYm qu))"

text \<open>\<open>withinYmRange(lbl)\<close> of the metrics route.\<close>

definition withinYmRange :: "string \<Rightarrow> string \<Rightarrow> string \<Rightarrow> bool" where
  "withinYmRange start fin lbl =
     (if start = [] \<and> fin = [] then True
      else if lbl = ''Unknown'' then False
      else if start \<noteq> [] \<and> strLess (ymKey lbl) (ymKey start) then False
      else if fin \<noteq> [] \<and> strLess (ymKey fin) (ymKey lbl) then False
      else True)"

text \<open>The predicate of \<open>rows.filter\<close> in the metrics route.\<close>

definition keepMetrics :: "query \<Rightarrow> row \<Rightarrow> bool" where
  "keepMetrics qu r =
     (if fSection qu \<noteq> [] \<and> toLowerCase (trim (orEmpty (row_section r))) \<noteq> fSection qu
      then False
      else if fCategory qu \<noteq> [] \<and> toLowerCase (trim (orEmpty (row_category r))) \<noteq> fCategory qu
      then False
      else if fQ qu \<noteq> [] \<and>
              \<not> includesStr (toLowerCase (orEmpty (row_title r) @ '' '' @ orEmpty (row_summary r)))
                   (fQ qu)
      then False
      else if \<not> withinYmRange (fStart qu) (fEnd qu) (toYmLabel r) then False
      else True)"

text \<open>\<open>(x || d).trim() || d\<close>, the bucket of a row with a blank category or section.\<close>

definition bucketOf :: "string option \<Rightarrow> string \<Rightarrow> string" where
  "bucketOf x d = (let s = trim (orElse x d) in if s = [] then d else s)"

text \<open>
  The loop over the filtered rows, with the state \<open>(byCategory, bySection, ymList)\<close>.
\<close>

fun tally ::
  "row list \<Rightarrow> (string \<times> int) list \<times> (string \<times> int) list \<times> string list \<Rightarrow>
   (string \<times> int) list \<times> (string \<times> int) list \<times> string list" where
  "tally [] (byCategory, bySection, ymList) = (byCategory, bySection, ymList)"
| "tally (r # rs) (byCategory, bySection, ymList) =
     (let cat = bucketOf (row_category r) ''Uncategorized'';
          sec = bucketOf (row_section r) ''unknown''
      in tally rs (increment cat byCategory, increment sec bySection, ymList @ [toYmLabel r]))"

text \<open>The loop over \<open>ymList\<close> that fills \<open>ymCounts\<close>.\<close>

fun countLabels :: "string list \<Rightarrow> (string \<times> int) list \<Rightarrow> (string \<times> int) list" where
  "countLabels [] ymCounts = ymCounts"
| "countLabels (l # ls) ymCounts = countLabels ls (increment l ymCounts)"

text \<open>
  The response of the metrics route, without \<open>csv_path\<close> and \<open>monthly_by_section\<close>:
  \<open>by_category\<close> and \<open>by_section\<close> are lists of \<open>(label, count)\<close>, \<open>by_year_month\<close> is the
  pair of \<open>agg_labels\<close> and \<open>agg_counts\<close>, and \<open>facets\<close> is the pair of \<open>agg_sections\<close> and
  \<open>agg_categories\<close>.
\<close>

record aggregations =
  agg_total :: int
  agg_by_category :: "(string \<times> int) list"
  agg_by_section :: "(string \<times> int) list"
  agg_labels :: "string list"
  agg_counts :: "int list"
  agg_sections :: "string list"
  agg_categories :: "string list"

definition aggregate :: "row list \<Rightarrow> query \<Rightarrow> aggregations" where
  "aggregate rowsMerged qu =
     (if length rowsMerged = 0
      then \<lparr>agg_total = 0, agg_by_category = [], agg_by_section = [], agg_labels = [],
             agg_counts = [], agg_sections = [], agg_categories = []\<rparr>
      else
        let rows = rowsMerged;
            allSections = sortBy strCompare (dedupe
              (filter (\<lambda>s. s \<noteq> []) (map (\<lambda>r. trim (orEmpty (row_section r))) rows)));
            allCategories = sortBy strCompare (dedupe
              (filter (\<lambda>s. s \<noteq> []) (map (\<lambda>r. trim (orEmpty (row_category r))) rows)));
            filtered = filter (keepMetrics qu) rows;
            (byCategory, bySection, ymList) = tally filtered ([], [], []);
            ymCounts = countLabels ymList [];
            ymLabels = sortYmLabels (map fst ymCounts)
        in \<lparr>agg_total = int (length filtered),
             agg_by_category = sortBy (\<lambda>a b. snd b - snd a) byCategory,
             agg_by_section = sortBy (\<lambda>a b. snd b - snd a) bySection,
             agg_labels = ymLabels,
             agg_counts = map (getOr0 ymCounts) ymLabels,
             agg_sections = allSections,
             agg_categories = allCategories\<rparr>)"

text \<open>The handler: the corpus is loaded, then aggregated.\<close>

definition metricsGET :: "world \<Rightarrow> string \<Rightarrow> string \<Rightarrow> query \<Rightarrow> aggregations" where
  "metricsGET w envJson publicDir qu =
     aggregate (loadRows (tryReadMetrics w) (orEmpty (q_csv qu)) envJson publicDir) qu"

section \<open>Filter engine and pagination, record listing (items route)\<close>

text \<open>
  \<open>Math.min\<close> and \<open>Math.max\<close> of two numbers, and \<open>+\<close>: the result is \<open>NaN\<close> when an
  argument is.
\<close>

definition mathMin :: "int option \<Rightarrow> int option \<Rightarrow> int option" where
  "mathMin a b = (case (a, b) of (Some x, Some y) \<Rightarrow> Some (min x y) | _ \<Rightarrow> None)"

definition mathMax :: "int option \<Rightarrow> int option \<Rightarrow> int option" where
  "mathMax a b = (case (a, b) of (Some x, Some y) \<Rightarrow> Some (max x y) | _ \<Rightarrow> None)"

definition numAdd :: "int option \<Rightarrow> int option \<Rightarrow> int option" where
  "numAdd a b = (case (a, b) of (Some x, Some y) \<Rightarrow> Some (x + y) | _ \<Rightarrow> None)"

text \<open>The constants \<open>limit\<close> and \<open>offset\<close> of the handler.\<close>

definition limitOf :: "query \<Rightarrow> int option" where
  "limitOf qu = mathMax (Some 1) (mathMin (Some 500) (parseInt (orElse (q_limit qu) ''20'')))"

definition offsetOf :: "query \<Rightarrow> int option" where
  "offsetOf qu = mathMax (Some 0) (parseInt (orElse (q_offset qu) ''0''))"

text \<open>\<open>xs.slice(start, fin)\<close> on numbers: a bound that is \<open>NaN\<close> counts as 0.\<close>

definition sliceNum :: "int option \<Rightarrow> int option \<Rightarrow> 'a list \<Rightarrow> 'a list" where
  "sliceNum start fin xs =
     slice (case start of None \<Rightarrow> 0 | Some k \<Rightarrow> k) (case fin of None \<Rightarrow> 0 | Some e \<Rightarrow> e) xs"

text \<open>\<open>withinYmRange(dateIso)\<close> of the items route: the label is read off \<open>date_iso\<close> alone.\<close>

definition itemsYmLabel :: "string \<Rightarrow> string" where
  "itemsYmLabel dateIso = (let l = slice 0 7 dateIso in if l = [] then ''Unknown'' else l)"

definition withinYmRangeItems :: "string \<Rightarrow> string \<Rightarrow> string \<Rightarrow> bool" where
  "withinYmRangeItems start fin dateIso =
     (let lbl = itemsYmLabel dateIso
      in if start = [] \<and> fin = [] then True
         else if lbl = ''Unknown'' then False
         else if start \<noteq> [] \<and> strLess (ymKey lbl) (ymKey start) then False
         else if fin \<noteq> [] \<and> strLess (ymKey fin) (ymKey lbl) then False
         else True)"

text \<open>The predicate of \<open>rows.filter\<close> in the items route.\<close>

definition keepItems :: "query \<Rightarrow> row \<Rightarrow> bool" where
  "keepItems qu r =
     (if fSection qu \<noteq> [] \<and> toLowerCase (trim (orEmpty (row_section r))) \<noteq> fSection qu
      then False
      else if fCategory qu \<noteq> [] \<and> toLowerCase (trim (orEmpty (row_category r))) \<noteq> fCategory qu
      then False
      else if fQ qu \<noteq> [] \<and> \<not> includesStr (toLowerCase (orEmpty (row_title r))) (fQ qu)
      then False
      else if \<not> withinYmRangeItems (fStart qu) (fEnd qu) (orEmpty (row_date_iso r)) then False
      else True)"

text \<open>
  The comparator of the listing: later dates first, then titles by \<open>localeCompare\<close>,
  which is a parameter of the model. A difference of the two date numbers that is
  \<open>NaN\<close> counts as 0 in the sort.
\<close>

definition dateNumber :: "row \<Rightarrow> int option" where
  "dateNumber r =
     (let i = removeAll (CHR ''-'') (orEmpty (row_date_iso r))
      in parseInt (if i = [] then ''0'' else i))"

definition compareItems :: "(string \<Rightarrow> string \<Rightarrow> int) \<Rightarrow> row \<Rightarrow> row \<Rightarrow> int" where
  "compareItems localeCompare a b =
     (case (dateNumber a, dateNumber b) of
        (Some an, Some bn) \<Rightarrow>
          if an \<noteq> bn then bn - an
          else localeCompare (toLowerCase (orEmpty (row_title a))) (toLowerCase (orEmpty (row_title b)))
      | _ \<Rightarrow> 0)"

text \<open>
  The response of the items route; \<open>list_items\<close> holds the rows of the page, from which
  the handler copies the fields of its compact records one by one.
\<close>

record listing =
  list_total :: int
  list_items :: "row list"

definition listItems :: "(string \<Rightarrow> string \<Rightarrow> int) \<Rightarrow> row list \<Rightarrow> query \<Rightarrow> listing" where
  "listItems localeCompare rows qu =
     (if length rows = 0 then \<lparr>list_total = 0, list_items = []\<rparr>
      else
        let limit = limitOf qu;
            offset = offsetOf qu;
            filtered = filter (keepItems qu) rows;
            sorted = sliceNum offset (numAdd offset limit)
                       (sortBy (compareItems localeCompare) filtered)
        in \<lparr>list_total = int (length filtered), list_items = sorted\<rparr>)"

definition itemsGET ::
  "world \<Rightarrow> (string \<Rightarrow> string \<Rightarrow> int) \<Rightarrow> string \<Rightarrow> string \<Rightarrow> query \<Rightarrow> listing" where
  "itemsGET w localeCompare envJson publicDir qu =
     listItems localeCompare (loadRows (tryReadItems w) (orEmpty (q_csv qu)) envJson publicDir) qu"

section \<open>The empty record and the request without parameters\<close>

text \<open>The row \<open>{}\<close>, with no field, and the query of a URL with no search parameter.\<close>

definition noFields :: row where
  "noFields = \<lparr>row_section = None, row_category = None, row_title = None, row_date = None,
     row_date_iso = None, row_year = None, row_month = None, row_url = None,
     row_summary = None\<rparr>"

definition noParams :: query where
  "noParams = \<lparr>q_csv = None, q_section = None, q_category = None, q_q = None,
     q_startYm = None, q_endYm = None, q_limit = None, q_offset = None\<rparr>"

section \<open>Properties of the classifier\<close>


lemma scanAreas_below:
  "bestScore < n \<Longrightarrow> \<forall>a \<in> set as. scorePairs t (snd a) 0 < n \<Longrightarrow>
   snd (scanAreas t as (best, bestScore)) < n"
  by (induction as arbitrary: best bestScore) (auto simp: Let_def)

lemma scanAreas_ge_init: "bestScore \<le> snd (scanAreas t as (best, bestScore))"
proof (induction as arbitrary: best bestScore)
  case Nil
  show ?case by simp
next
  case (Cons a as)
  obtain label pairs where a: "a = (label, pairs)" by (cases a)
  show ?case
    using Cons.IH [of "scorePairs t pairs 0" label] Cons.IH [of bestScore best]
    by (simp add: a Let_def)
qed

lemma scanAreas_ge_all:
  "a \<in> set as \<Longrightarrow> scorePairs t (snd a) 0 \<le> snd (scanAreas t as (best, bestScore))"
proof (induction as arbitrary: best bestScore)
  case Nil
  then show ?case by simp
next
  case (Cons b as)
  obtain l ps where b: "b = (l, ps)" by (cases b)
  show ?case
  proof (cases "a = b")
    case True
    then show ?thesis
      using scanAreas_ge_init [of "scorePairs t ps 0" t as l]
        scanAreas_ge_init [of bestScore t as best]
      by (simp add: b Let_def)
  next
    case False
    then have "a \<in> set as" using Cons.prems by simp
    then show ?thesis
      using Cons.IH by (simp add: b Let_def)
  qed
qed

lemma scanAreas_unchanged:
  "snd (scanAreas t as (best, bestScore)) \<le> bestScore \<Longrightarrow>
   scanAreas t as (best, bestScore) = (best, bestScore)"
proof (induction as arbitrary: best bestScore)
  case Nil
  show ?case by simp
next
  case (Cons a as)
  obtain l ps where a: "a = (l, ps)" by (cases a)
  show ?case
  proof (cases "scorePairs t ps 0 > bestScore")
    case True
    then show ?thesis
      using Cons.prems scanAreas_ge_init [of "scorePairs t ps 0" t as l]
      by (simp add: a Let_def)
  next
    case False
    then show ?thesis using Cons.prems Cons.IH by (simp add: a Let_def)
  qed
qed

lemma scanAreas_first_max:
  "bestScore < snd (scanAreas t as (best, bestScore)) \<Longrightarrow>
   \<exists>pre pairs post. as = pre @ (fst (scanAreas t as (best, bestScore)), pairs) # post \<and>
      scorePairs t pairs 0 = snd (scanAreas t as (best, bestScore)) \<and>
      (\<forall>b \<in> set pre. scorePairs t (snd b) 0 < scorePairs t pairs 0)"
proof (induction as arbitrary: best bestScore)
  case Nil
  then show ?case by simp
next
  case (Cons a as)
  obtain label pairs where a: "a = (label, pairs)" by (cases a)
  let ?s = "scorePairs t pairs 0"
  let ?r = "scanAreas t (a # as) (best, bestScore)"
  have ext: "\<exists>pre prs post. a # as = pre @ (fst ?r, prs) # post \<and>
      scorePairs t prs 0 = snd ?r \<and>
      (\<forall>b \<in> set pre. scorePairs t (snd b) 0 < scorePairs t prs 0)"
    if d: "as = pre @ (fst ?r, prs) # post"
      and s: "scorePairs t prs 0 = snd ?r"
      and p: "\<forall>b \<in> set pre. scorePairs t (snd b) 0 < scorePairs t prs 0"
      and h: "?s < scorePairs t prs 0"
    for pre prs post
  proof (intro exI conjI)
    show "a # as = (a # pre) @ (fst ?r, prs) # post" using d by simp
    show "scorePairs t prs 0 = snd ?r" by (rule s)
    show "\<forall>b \<in> set (a # pre). scorePairs t (snd b) 0 < scorePairs t prs 0"
      using p h a by simp
  qed
  show ?case
  proof (cases "?s > bestScore")
    case True
    have step: "?r = scanAreas t as (label, ?s)"
      using True a by simp
    show ?thesis
    proof (cases "?s < snd (scanAreas t as (label, ?s))")
      case False
      then have "scanAreas t as (label, ?s) = (label, ?s)"
        by (intro scanAreas_unchanged) simp
      then have r: "?r = (label, ?s)" using step by simp
      show ?thesis
      proof (intro exI conjI)
        show "a # as = [] @ (fst ?r, pairs) # as" using r a by simp
        show "?s = snd ?r" using r by simp
        show "\<forall>b \<in> set []. scorePairs t (snd b) 0 < ?s" by simp
      qed
    next
      case gt: True
      from Cons.IH [OF gt] obtain pre prs post where
        d: "as = pre @ (fst (scanAreas t as (label, ?s)), prs) # post"
        and s: "scorePairs t prs 0 = snd (scanAreas t as (label, ?s))"
        and p: "\<forall>b \<in> set pre. scorePairs t (snd b) 0 < scorePairs t prs 0"
        by blast
      show ?thesis
        by (rule ext [of pre prs post]) (use d s p gt step in simp_all)
    qed
  next
    case False
    have step: "?r = scanAreas t as (best, bestScore)"
      using False a by simp
    have gt: "bestScore < snd (scanAreas t as (best, bestScore))"
      using Cons.prems step by simp
    from Cons.IH [OF gt] obtain pre prs post where
        d: "as = pre @ (fst (scanAreas t as (best, bestScore)), prs) # post"
        and s: "scorePairs t prs 0 = snd (scanAreas t as (best, bestScore))"
        and p: "\<forall>b \<in> set pre. scorePairs t (snd b) 0 < scorePairs t prs 0"
        by blast
    show ?thesis
      by (rule ext [of pre prs post]) (use d s p gt step False in simp_all)
  qed
qed

text \<open>
  Claim C1. For every title and summary: when every catalogue category scores below
  the confidence floor 2 on the lowercased text (so the highest score is below 2),
  \<open>categorize\<close> returns the default category
  \<open>Gender equality and women's empowerment\<close>.
\<close>

theorem categorize_confidence_floor:
  assumes "\<forall>(label, pairs) \<in> set areas. scorePairs (categorizeText title summary) pairs 0 < 2"
  shows "categorize title summary = defaultCategory"
proof -
  have "snd (scanAreas (categorizeText title summary) areas (defaultCategory, 0)) < 2"
    using assms by (intro scanAreas_below) auto
  then show ?thesis
    by (auto simp add: categorize_def Let_def split: prod.splits)
qed



theorem categorize_confidence_floor_witness:
  "categoryScores (categorizeText ''Women'' ''in Ghana'')
     = [0, 0, 0, 0, 0, 0, 0, 0, 0, 0, 0, 0, 0, 0, 0, 0, 0, 0, 0, 1]
   \<and> categorize ''Women'' ''in Ghana'' = defaultCategory"
proof -
  have h: "\<forall>(label, pairs) \<in> set areas.
      scorePairs (categorizeText ''Women'' ''in Ghana'') pairs 0 < 2"
    by code_simp
  have "categoryScores (categorizeText ''Women'' ''in Ghana'')
     = [0, 0, 0, 0, 0, 0, 0, 0, 0, 0, 0, 0, 0, 0, 0, 0, 0, 0, 0, 1]"
    by code_simp
  then show ?thesis using categorize_confidence_floor [OF h] by simp
qed

lemma areas_labels_distinct: "distinct (map fst areas)"
  by (simp add: areas_def)

lemma categoryScores_nth:
  "k < length areas \<Longrightarrow> categoryScores t ! k = scorePairs t (snd (areas ! k)) 0"
  by (simp add: categoryScores_def split: prod.splits)

text \<open>
  Claim C2, as amended. Let two catalogue categories \<open>i < j\<close> have the same score,
  let that score be the highest of the catalogue and at least the confidence floor 2.
  Then \<open>categorize\<close> does not return the later category \<open>j\<close>; it returns the
  earliest category \<open>k \<le> i\<close> that reaches the tied score. \<open>categorize\<close> is a function
  of the title and the summary alone, so a repeated call returns the same category.
\<close>

theorem categorize_tie_break:
  assumes ij: "i < j" and j: "j < length areas"
    and t: "t = categorizeText title summary"
    and tie: "categoryScores t ! i = categoryScores t ! j"
    and top: "\<forall>s \<in> set (categoryScores t). s \<le> categoryScores t ! i"
    and floor: "2 \<le> categoryScores t ! i"
  shows "categorize title summary \<noteq> fst (areas ! j) \<and>
    (\<exists>k \<le> i. categorize title summary = fst (areas ! k) \<and>
       categoryScores t ! k = categoryScores t ! i \<and>
       (\<forall>m < k. categoryScores t ! m < categoryScores t ! k))"
proof -
  let ?r = "scanAreas t areas (defaultCategory, 0)"
  have i: "i < length areas" using ij j by simp
  have len: "length (categoryScores t) = length areas" by (simp add: categoryScores_def)
  have "scorePairs t (snd (areas ! i)) 0 \<le> snd ?r"
    using i by (intro scanAreas_ge_all) simp
  then have si: "categoryScores t ! i \<le> snd ?r" using i by (simp add: categoryScores_nth)
  then have big: "0 < snd ?r" and two: "\<not> snd ?r < 2" using floor by simp_all
  have cat: "categorize title summary = fst ?r"
    using two t by (auto simp add: categorize_def Let_def split: prod.splits)
  from scanAreas_first_max [OF big] obtain pre pairs post where
    d: "areas = pre @ (fst ?r, pairs) # post"
    and s: "scorePairs t pairs 0 = snd ?r"
    and p: "\<forall>b \<in> set pre. scorePairs t (snd b) 0 < scorePairs t pairs 0"
    by blast
  let ?k = "length pre"
  have k: "?k < length areas" by (subst d) simp
  have ak: "areas ! ?k = (fst ?r, pairs)" by (subst d) simp
  have sk: "categoryScores t ! ?k = snd ?r" using k ak s by (simp add: categoryScores_nth)
  have "categoryScores t ! ?k \<in> set (categoryScores t)" using k len by simp
  then have "categoryScores t ! ?k \<le> categoryScores t ! i" using top by blast
  then have eq: "categoryScores t ! ?k = categoryScores t ! i" using si sk by simp
  have before: "categoryScores t ! m < categoryScores t ! ?k" if "m < ?k" for m
  proof -
    have "areas ! m = pre ! m" using that by (subst d) (simp add: nth_append)
    moreover have "pre ! m \<in> set pre" using that by simp
    ultimately have "scorePairs t (snd (areas ! m)) 0 < scorePairs t pairs 0" using p by simp
    moreover have "m < length areas" using that k by simp
    ultimately show ?thesis using sk s by (simp add: categoryScores_nth)
  qed
  have ki: "?k \<le> i"
  proof (rule ccontr)
    assume "\<not> ?k \<le> i"
    then have "categoryScores t ! i < categoryScores t ! ?k" using before by simp
    then show False using eq by simp
  qed
  have "j < length (map fst areas)" "?k < length (map fst areas)" "j \<noteq> ?k"
    using ki ij j k by simp_all
  then have "map fst areas ! j \<noteq> map fst areas ! ?k"
    using areas_labels_distinct nth_eq_iff_index_eq by blast
  then have "fst (areas ! j) \<noteq> fst (areas ! ?k)" using j k by simp
  then have "categorize title summary \<noteq> fst (areas ! j)" using cat ak by simp
  moreover have "categorize title summary = fst (areas ! ?k)" using cat ak by simp
  ultimately show ?thesis using ki eq before by blast
qed




theorem categorize_tie_break_witness:
  "categorize ''Women in Fisheries value chains'' '''' \<noteq> fst (areas ! 17) \<and>
    (\<exists>k \<le> 0. categorize ''Women in Fisheries value chains'' '''' = fst (areas ! k) \<and>
       categoryScores (categorizeText ''Women in Fisheries value chains'' '''') ! k
         = categoryScores (categorizeText ''Women in Fisheries value chains'' '''') ! 0 \<and>
       (\<forall>m < k. categoryScores (categorizeText ''Women in Fisheries value chains'' '''') ! m
          < categoryScores (categorizeText ''Women in Fisheries value chains'' '''') ! k))"
proof -
  have sc: "categoryScores (categorizeText ''Women in Fisheries value chains'' '''')
   = [5, 0, 0, 0, 0, 0, 0, 0, 0, 0, 0, 0, 0, 0, 0, 0, 0, 5, 0, 1]"
    by code_simp
  have len: "(17::nat) < length areas" by (simp add: areas_def)
  show ?thesis
    by (rule categorize_tie_break [of 0 17, OF _ len refl]) (simp_all add: sc)
qed

text \<open>
  Without the floor the tie rule fails: on the empty text every category scores 0, the
  first and the last category are tied at the highest score, and \<open>categorize\<close> returns
  the last one, which is the default.
\<close>

theorem categorize_tie_counterexample:
  "(0::nat) < 19 \<and> 19 < length areas \<and>
   categoryScores (categorizeText [] []) = replicate 20 0 \<and>
   categorize [] [] = fst (areas ! 19) \<and>
   categorize [] [] \<noteq> fst (areas ! 0)"
  by code_simp

section \<open>Properties of the summarizer\<close>

lemma set_insertBy: "set (insertBy cmp x ys) = insert x (set ys)"
  by (induction ys) auto

lemma length_insertBy: "length (insertBy cmp x ys) = Suc (length ys)"
  by (induction ys) auto

lemma set_sortBy: "set (sortBy cmp xs) = set xs"
  by (induction xs) (simp_all add: sortBy_def set_insertBy)

lemma length_sortBy: "length (sortBy cmp xs) = length xs"
  by (induction xs) (simp_all add: sortBy_def length_insertBy)

lemma distinct_map_insertBy:
  "distinct (map f (insertBy cmp x ys)) \<longleftrightarrow> f x \<notin> f ` set ys \<and> distinct (map f ys)"
  by (induction ys) (auto simp: set_insertBy)

lemma distinct_map_sortBy: "distinct (map f (sortBy cmp xs)) \<longleftrightarrow> distinct (map f xs)"
proof (induction xs)
  case Nil
  show ?case by (simp add: sortBy_def)
next
  case (Cons x xs)
  have "sortBy cmp (x # xs) = insertBy cmp x (sortBy cmp xs)" by (simp add: sortBy_def)
  then show ?case using Cons.IH by (simp add: distinct_map_insertBy set_sortBy)
qed

lemma sum_list_insertBy: "sum_list (map f (insertBy cmp x ys)) = f x + sum_list (map f ys)"
  for f :: "'a \<Rightarrow> int"
  by (induction ys) auto

lemma sum_list_sortBy: "sum_list (map f (sortBy cmp xs)) = sum_list (map f xs)"
  for f :: "'a \<Rightarrow> int"
  by (induction xs) (simp_all add: sortBy_def sum_list_insertBy)

lemma sorted_insertBy_nat:
  "sorted ys \<Longrightarrow> sorted (insertBy (\<lambda>a b. int a - int b) x ys)"
  by (induction ys) (auto simp: set_insertBy)

lemma sorted_sortBy_nat: "sorted (sortBy (\<lambda>a b. int a - int b) xs)"
  by (induction xs) (simp_all add: sortBy_def sorted_insertBy_nat)

lemma slice_from_start: "0 \<le> m \<Longrightarrow> slice 0 m xs = take (nat m) xs"
  by (simp add: slice_def Let_def min_def)

lemma topIndices_props:
  assumes "0 \<le> maxSentences"
  shows "sorted_wrt (<) (topIndices body sentences maxSentences)"
    and "\<forall>i \<in> set (topIndices body sentences maxSentences). i < length sentences"
    and "int (length (topIndices body sentences maxSentences)) \<le> maxSentences"
proof -
  define freq where "freq = countWords (matchWords (toLowerCase body)) Map.empty"
  define scored where
    "scored = map (\<lambda>i. (i, sentenceScore freq (sentences ! i))) [0..<length sentences]"
  define sorted_scored where "sorted_scored = sortBy (\<lambda>a b. snd b - snd a) scored"
  define chosen where "chosen = map fst (take (nat maxSentences) sorted_scored)"
  have top: "topIndices body sentences maxSentences = sortBy (\<lambda>a b. int a - int b) chosen"
    using assms
    by (simp add: topIndices_def Let_def slice_from_start chosen_def sorted_scored_def
        scored_def freq_def)
  have fsts: "map fst scored = [0..<length sentences]"
    by (simp add: scored_def comp_def)
  then have "distinct (map fst scored)" by simp
  then have "distinct (map fst sorted_scored)"
    by (simp add: sorted_scored_def distinct_map_sortBy)
  then have "distinct (take (nat maxSentences) (map fst sorted_scored))"
    by (rule distinct_take)
  then have dc: "distinct chosen" by (simp add: chosen_def take_map)
  have "set chosen \<subseteq> set (map fst sorted_scored)"
    unfolding chosen_def by (auto dest: in_set_takeD)
  also have "\<dots> = set (map fst scored)"
    by (simp add: sorted_scored_def set_sortBy)
  finally have sub: "set chosen \<subseteq> {0..<length sentences}" using fsts by simp
  have "distinct (topIndices body sentences maxSentences)"
    using dc distinct_map_sortBy [of "\<lambda>x. x" _ chosen] by (simp add: top)
  then show "sorted_wrt (<) (topIndices body sentences maxSentences)"
    using sorted_sortBy_nat [of chosen] by (simp add: top strict_sorted_iff)
  show "\<forall>i \<in> set (topIndices body sentences maxSentences). i < length sentences"
    using sub by (auto simp: top set_sortBy)
  have "length chosen \<le> nat maxSentences" by (simp add: chosen_def)
  then show "int (length (topIndices body sentences maxSentences)) \<le> maxSentences"
    using assms by (simp add: top length_sortBy)
qed

lemma sentencesOf_empty: "sentencesOf [] = []"
  by (simp add: sentencesOf_def trim_def trimStart_def trimEnd_def)

text \<open>
  Claim C3, as amended. For every text and every integer \<open>maxSentences \<ge> 0\<close> the summary
  is the join, by one space, of the sentences of the normalized text at a strictly
  increasing list of positions, and that list has at most \<open>maxSentences\<close> entries: no more
  than \<open>maxSentences\<close> sentences, in the order of the source text. The proof uses of the
  scores only that sorting permutes the scored sentences.
\<close>

theorem summarizeExtractive_at_most:
  assumes "0 \<le> maxSentences"
  shows "\<exists>idxs. sorted_wrt (<) idxs \<and>
     (\<forall>i \<in> set idxs. i < length (sentencesOf (normalizeSpace text))) \<and>
     int (length idxs) \<le> maxSentences \<and>
     summarizeExtractive text maxSentences
       = join '' '' (map (\<lambda>i. sentencesOf (normalizeSpace text) ! i) idxs)"
proof -
  let ?ss = "sentencesOf (normalizeSpace text)"
  consider (empty) "normalizeSpace text = []"
    | (few) "normalizeSpace text \<noteq> []" "int (length ?ss) \<le> maxSentences"
    | (many) "normalizeSpace text \<noteq> []" "\<not> int (length ?ss) \<le> maxSentences"
    by blast
  then show ?thesis
  proof cases
    case empty
    then have "summarizeExtractive text maxSentences = join '' '' (map (\<lambda>i. ?ss ! i) [])"
      by (simp add: summarizeExtractive_def)
    then show ?thesis using assms
      by (intro exI [of _ "[]"]) simp
  next
    case few
    then have "summarizeExtractive text maxSentences
        = join '' '' (map (\<lambda>i. ?ss ! i) [0..<length ?ss])"
      by (simp add: summarizeExtractive_def Let_def map_nth)
    then show ?thesis using few
      by (intro exI [of _ "[0..<length ?ss]"]) (simp add: strict_sorted_iff)
  next
    case many
    then have "summarizeExtractive text maxSentences
        = join '' '' (map (\<lambda>i. ?ss ! i) (topIndices (normalizeSpace text) ?ss maxSentences))"
      by (simp add: summarizeExtractive_def Let_def)
    then show ?thesis using topIndices_props [OF assms, of "normalizeSpace text" ?ss]
      by (intro exI [of _ "topIndices (normalizeSpace text) ?ss maxSentences"]) simp
  qed
qed

theorem summarizeExtractive_at_most_witness:
  "(0::int) \<le> 2 \<and>
   sentencesOf (normalizeSpace ''Hello there. Women manage the forest. It rains! The forest is big?   Yes.'')
     = [''Hello there.'', ''Women manage the forest.'', ''It rains!'', ''The forest is big?'', ''Yes.''] \<and>
   summarizeExtractive ''Hello there. Women manage the forest. It rains! The forest is big?   Yes.'' 2
     = ''Women manage the forest. The forest is big?'' \<and>
   (\<exists>idxs. sorted_wrt (<) idxs \<and>
     (\<forall>i \<in> set idxs. i < length (sentencesOf (normalizeSpace
        ''Hello there. Women manage the forest. It rains! The forest is big?   Yes.''))) \<and>
     int (length idxs) \<le> 2 \<and>
     summarizeExtractive ''Hello there. Women manage the forest. It rains! The forest is big?   Yes.'' 2
       = join '' '' (map (\<lambda>i. sentencesOf (normalizeSpace
          ''Hello there. Women manage the forest. It rains! The forest is big?   Yes.'') ! i) idxs))"
proof -
  have a: "sentencesOf (normalizeSpace ''Hello there. Women manage the forest. It rains! The forest is big?   Yes.'')
     = [''Hello there.'', ''Women manage the forest.'', ''It rains!'', ''The forest is big?'', ''Yes.'']"
    by code_simp
  have b: "summarizeExtractive ''Hello there. Women manage the forest. It rains! The forest is big?   Yes.'' 2
     = ''Women manage the forest. The forest is big?''"
    by code_simp
  have h: "(0::int) \<le> 2" by simp
  show ?thesis
    using a b h summarizeExtractive_at_most [OF h,
      of "''Hello there. Women manage the forest. It rains! The forest is big?   Yes.''"]
    by simp
qed

text \<open>
  For a negative \<open>maxSentences\<close> the bound fails: \<open>slice(0, -1)\<close> drops only the last of
  the sorted sentences, so two of three sentences are returned for \<open>maxSentences = -1\<close>.
\<close>

theorem summarizeExtractive_negative_counterexample:
  "sentencesOf (normalizeSpace ''A. B. C.'') = [''A.'', ''B.'', ''C.''] \<and>
   summarizeExtractive ''A. B. C.'' (- 1) = join '' '' [''A.'', ''B.''] \<and>
   \<not> int (length [''A.'', ''B.'']) \<le> - 1"
  by code_simp

text \<open>
  The normalized text is in normal form: collapsing its white space changes nothing and
  it neither starts nor ends with white space. On a text in normal form every piece of
  the sentence split is non-empty and already trimmed, and the pieces joined by one
  space are the text again.
\<close>

lemma length_collapseSpaces: "length (collapseSpaces s) \<le> length s"
proof (induction s rule: collapseSpaces.induct)
  case 1
  show ?case by simp
next
  case (2 c cs)
  have "length (dropWhile isSpace cs) \<le> length cs" by (rule length_dropWhile_le)
  then show ?case using 2 by auto
qed

lemma dropWhile_same_length: "length (dropWhile P xs) = length xs \<Longrightarrow> dropWhile P xs = xs"
proof (cases xs)
  case Nil
  then show ?thesis by simp
next
  case (Cons x xs')
  assume l: "length (dropWhile P xs) = length xs"
  show ?thesis
  proof (cases "P x")
    case True
    then have "length (dropWhile P xs) \<le> length xs'"
      using Cons by (simp add: length_dropWhile_le)
    then show ?thesis using l Cons by simp
  next
    case False
    then show ?thesis using Cons by simp
  qed
qed

lemma dropWhile_id: "xs = [] \<or> \<not> P (hd xs) \<Longrightarrow> dropWhile P xs = xs"
  by (cases xs) auto

lemma collapsed_Cons:
  "collapseSpaces (c # cs) = c # cs \<longleftrightarrow>
     (if isSpace c then c = CHR '' '' \<and> (cs = [] \<or> \<not> isSpace (hd cs)) \<and> collapseSpaces cs = cs
      else collapseSpaces cs = cs)"
proof (cases "isSpace c")
  case False
  then show ?thesis by simp
next
  case True
  show ?thesis
  proof
    assume "collapseSpaces (c # cs) = c # cs"
    then have c: "c = CHR '' ''" and e: "collapseSpaces (dropWhile isSpace cs) = cs"
      using True by simp_all
    have "length cs \<le> length (dropWhile isSpace cs)"
      using length_collapseSpaces [of "dropWhile isSpace cs"] e by simp
    then have "length (dropWhile isSpace cs) = length cs"
      using length_dropWhile_le [of isSpace cs] by simp
    then have d: "dropWhile isSpace cs = cs" by (rule dropWhile_same_length)
    then have "cs = [] \<or> \<not> isSpace (hd cs)"
      using hd_dropWhile [of isSpace cs] by (cases cs) auto
    then show "if isSpace c then c = CHR '' '' \<and> (cs = [] \<or> \<not> isSpace (hd cs)) \<and>
        collapseSpaces cs = cs else collapseSpaces cs = cs"
      using True c e d by simp
  next
    assume "if isSpace c then c = CHR '' '' \<and> (cs = [] \<or> \<not> isSpace (hd cs)) \<and>
        collapseSpaces cs = cs else collapseSpaces cs = cs"
    then have c: "c = CHR '' ''" and h: "cs = [] \<or> \<not> isSpace (hd cs)"
      and e: "collapseSpaces cs = cs"
      using True by simp_all
    have "dropWhile isSpace cs = cs" using h by (rule dropWhile_id)
    then show "collapseSpaces (c # cs) = c # cs" using True c e by simp
  qed
qed

lemma hd_collapseSpaces:
  "s \<noteq> [] \<Longrightarrow> \<not> isSpace (hd s) \<Longrightarrow>
   collapseSpaces s \<noteq> [] \<and> hd (collapseSpaces s) = hd s"
  by (cases s) auto

lemma collapseSpaces_idem: "collapseSpaces (collapseSpaces s) = collapseSpaces s"
proof (induction s rule: collapseSpaces.induct)
  case 1
  show ?case by simp
next
  case (2 c cs)
  show ?case
  proof (cases "isSpace c")
    case False
    then show ?thesis using 2 by simp
  next
    case True
    let ?d = "dropWhile isSpace cs"
    have ih: "collapseSpaces (collapseSpaces ?d) = collapseSpaces ?d" using 2 True by simp
    have "?d = [] \<or> \<not> isSpace (hd ?d)"
      using hd_dropWhile [of isSpace cs] by auto
    then have "collapseSpaces ?d = [] \<or> \<not> isSpace (hd (collapseSpaces ?d))"
    proof
      assume "?d = []"
      then have "collapseSpaces ?d = collapseSpaces []" by (rule arg_cong)
      then show ?thesis by simp
    next
      assume n: "\<not> isSpace (hd ?d)"
      show ?thesis
      proof (cases "?d = []")
        case True
        then have "collapseSpaces ?d = collapseSpaces []" by (rule arg_cong)
        then show ?thesis by simp
      next
        case False
        then show ?thesis using n hd_collapseSpaces [of ?d] by presburger
      qed
    qed
    moreover have "isSpace (CHR '' '')" by (simp add: isSpace_def)
    ultimately have "collapseSpaces (CHR '' '' # collapseSpaces ?d) = CHR '' '' # collapseSpaces ?d"
      using ih by (simp only: collapsed_Cons) simp
    then show ?thesis using True by simp
  qed
qed

lemma collapsed_prefix: "collapseSpaces (xs @ ys) = xs @ ys \<Longrightarrow> collapseSpaces xs = xs"
proof (induction xs)
  case Nil
  show ?case by simp
next
  case (Cons c xs)
  from Cons.prems have p: "collapseSpaces (c # (xs @ ys)) = c # (xs @ ys)" by simp
  then have t: "collapseSpaces (xs @ ys) = xs @ ys"
    by (simp only: collapsed_Cons split: if_splits)
  then have ih: "collapseSpaces xs = xs" by (rule Cons.IH)
  show ?case
  proof (cases "isSpace c")
    case False
    then show ?thesis using ih by (simp only: collapsed_Cons) simp
  next
    case True
    then have "c = CHR '' ''" and "xs @ ys = [] \<or> \<not> isSpace (hd (xs @ ys))"
      using p by (simp_all only: collapsed_Cons split: if_splits)
    then have "c = CHR '' '' \<and> (xs = [] \<or> \<not> isSpace (hd xs))" by (cases xs) auto
    then show ?thesis using ih True by (simp only: collapsed_Cons) simp
  qed
qed

lemma collapsed_suffix: "collapseSpaces (xs @ ys) = xs @ ys \<Longrightarrow> collapseSpaces ys = ys"
proof (induction xs)
  case Nil
  then show ?case by simp
next
  case (Cons c xs)
  from Cons.prems have "collapseSpaces (c # (xs @ ys)) = c # (xs @ ys)" by simp
  then have "collapseSpaces (xs @ ys) = xs @ ys"
    by (simp only: collapsed_Cons split: if_splits)
  then show ?case by (rule Cons.IH)
qed

lemma trimEnd_prefix: "trimEnd s @ rev (takeWhile isSpace (rev s)) = s"
proof -
  have "rev (takeWhile isSpace (rev s) @ dropWhile isSpace (rev s)) = s" by simp
  then show ?thesis unfolding trimEnd_def by (simp only: rev_append)
qed

lemma trimStart_suffix: "takeWhile isSpace s @ trimStart s = s"
  by (simp add: trimStart_def)

lemma collapsed_trim: "collapseSpaces s = s \<Longrightarrow> collapseSpaces (trim s) = trim s"
proof -
  assume a: "collapseSpaces s = s"
  have "collapseSpaces (takeWhile isSpace s @ trimStart s) = takeWhile isSpace s @ trimStart s"
    using a by (simp only: trimStart_suffix)
  then have b: "collapseSpaces (trimStart s) = trimStart s" by (rule collapsed_suffix)
  let ?u = "trimStart s"
  have "collapseSpaces (trimEnd ?u @ rev (takeWhile isSpace (rev ?u)))
      = trimEnd ?u @ rev (takeWhile isSpace (rev ?u))"
    using b by (simp only: trimEnd_prefix)
  then have "collapseSpaces (trimEnd ?u) = trimEnd ?u" by (rule collapsed_prefix)
  then show ?thesis by (simp add: trim_def)
qed

lemma trim_ends:
  "trim s \<noteq> [] \<Longrightarrow> \<not> isSpace (hd (trim s)) \<and> \<not> isSpace (last (trim s))"
proof -
  assume ne: "trim s \<noteq> []"
  let ?u = "trimStart s"
  let ?r = "dropWhile isSpace (rev ?u)"
  have t: "trim s = rev ?r" by (simp add: trim_def trimEnd_def)
  then have r: "?r \<noteq> []" using ne by simp
  then have "\<not> isSpace (hd ?r)" using hd_dropWhile [of isSpace "rev ?u"] by simp
  then have l: "\<not> isSpace (last (trim s))" using t r by (simp add: last_rev)
  have u: "?u \<noteq> []" using r by auto
  then have hu: "\<not> isSpace (hd ?u)"
    using hd_dropWhile [of isSpace s] by (simp add: trimStart_def)
  have "trim s @ rev (takeWhile isSpace (rev ?u)) = ?u"
    using trimEnd_prefix [of ?u] by (simp add: trim_def)
  then have "hd ?u = hd (trim s)" using ne by (metis hd_append2)
  then show ?thesis using hu l by simp
qed

lemma trim_fixed: "s \<noteq> [] \<Longrightarrow> \<not> isSpace (hd s) \<Longrightarrow> \<not> isSpace (last s) \<Longrightarrow> trim s = s"
proof -
  assume ne: "s \<noteq> []" and h: "\<not> isSpace (hd s)" and l: "\<not> isSpace (last s)"
  have a: "trimStart s = s" using ne h by (cases s) (simp_all add: trimStart_def)
  have "rev s \<noteq> []" "\<not> isSpace (hd (rev s))" using ne l by (simp_all add: hd_rev)
  then have "dropWhile isSpace (rev s) = rev s" by (cases "rev s") simp_all
  then have "trimEnd s = s" by (simp add: trimEnd_def)
  then show ?thesis using a by (simp add: trim_def)
qed

lemma splitSentences_nonempty: "splitSentences s \<noteq> []"
  by (induction s rule: splitSentences.induct) (auto split: list.splits)

lemma join_Cons: "ps \<noteq> [] \<Longrightarrow> join sep (x # ps) = x @ sep @ join sep ps"
  by (cases ps) simp_all

lemma join_Cons_head: "join sep ((c # p) # ps) = c # join sep (p # ps)"
  by (cases ps) simp_all

lemma isTerminal_not_space: "isTerminal c \<Longrightarrow> \<not> isSpace c"
  by (auto simp: isTerminal_def isSpace_def)

lemma splitSentences_pieces:
  "collapseSpaces s = s \<Longrightarrow> s \<noteq> [] \<Longrightarrow> \<not> isSpace (last s) \<Longrightarrow>
   join '' '' (splitSentences s) = s \<and>
   (\<forall>p \<in> set (splitSentences s). p \<noteq> [] \<and> \<not> isSpace (last p)) \<and>
   (\<forall>p \<in> set (tl (splitSentences s)). \<not> isSpace (hd p)) \<and>
   hd (hd (splitSentences s)) = hd s"
proof (induction s rule: splitSentences.induct)
  case 1
  then show ?case by simp
next
  case (2 c cs)
  have fix_cs: "collapseSpaces cs = cs"
    using "2.prems"(1) by (simp only: collapsed_Cons split: if_splits)
  show ?case
  proof (cases "isTerminal c \<and> cs \<noteq> [] \<and> isSpace (hd cs)")
    case True
    then obtain d cs' where cs: "cs = d # cs'" and d: "isSpace d" by (cases cs) auto
    have c: "\<not> isSpace c" using True isTerminal_not_space by simp
    have dd: "d = CHR '' ''" and h: "cs' = [] \<or> \<not> isSpace (hd cs')"
      and fix': "collapseSpaces cs' = cs'"
      using fix_cs d unfolding cs by (simp_all only: collapsed_Cons split: if_splits)
    have ne: "cs' \<noteq> []"
    proof
      assume "cs' = []"
      then have "last (c # cs) = d" using cs by simp
      then show False using "2.prems"(3) d by simp
    qed
    then have hd': "\<not> isSpace (hd cs')" using h by simp
    have drop: "dropWhile isSpace cs = cs'"
      using cs d ne hd' by (cases cs') simp_all
    have last': "\<not> isSpace (last cs')" using "2.prems"(3) cs ne by simp
    have split: "splitSentences (c # cs) = [c] # splitSentences cs'"
      using True drop by simp
    have ih: "join '' '' (splitSentences cs') = cs' \<and>
       (\<forall>p \<in> set (splitSentences cs'). p \<noteq> [] \<and> \<not> isSpace (last p)) \<and>
       (\<forall>p \<in> set (tl (splitSentences cs')). \<not> isSpace (hd p)) \<and>
       hd (hd (splitSentences cs')) = hd cs'"
      using "2.IH"(1) [OF True] fix' ne last' by (simp add: drop)
    have "join '' '' ([c] # splitSentences cs') = [c] @ '' '' @ join '' '' (splitSentences cs')"
      by (rule join_Cons) (rule splitSentences_nonempty)
    also have "\<dots> = c # cs" using ih cs dd by simp
    finally have j: "join '' '' ([c] # splitSentences cs') = c # cs" .
    have heads: "\<forall>p \<in> set (splitSentences cs'). \<not> isSpace (hd p)"
    proof
      fix p assume p: "p \<in> set (splitSentences cs')"
      obtain q qs where q: "splitSentences cs' = q # qs"
        using splitSentences_nonempty [of cs'] by (cases "splitSentences cs'") auto
      show "\<not> isSpace (hd p)"
      proof (cases "p = q")
        case True
        then show ?thesis using ih q hd' by simp
      next
        case False
        then have "p \<in> set (tl (splitSentences cs'))" using p q by simp
        then show ?thesis using ih by blast
      qed
    qed
    show ?thesis unfolding split using j ih heads c by simp
  next
    case False
    obtain p ps where pp: "splitSentences cs = p # ps"
      using splitSentences_nonempty [of cs] by (cases "splitSentences cs") auto
    have "splitSentences (c # cs) = (case splitSentences cs of [] \<Rightarrow> [[c]] | p # ps \<Rightarrow> (c # p) # ps)"
      using False by (simp only: splitSentences.simps if_False)
    then have split: "splitSentences (c # cs) = (c # p) # ps" using pp by simp
    show ?thesis
    proof (cases "cs = []")
      case True
      then have "p = []" "ps = []" using pp by simp_all
      then show ?thesis unfolding split using True "2.prems"(3) by simp
    next
      case ne: False
      have last': "\<not> isSpace (last cs)" using "2.prems"(3) ne by simp
      have ih: "join '' '' (splitSentences cs) = cs \<and>
       (\<forall>p \<in> set (splitSentences cs). p \<noteq> [] \<and> \<not> isSpace (last p)) \<and>
       (\<forall>p \<in> set (tl (splitSentences cs)). \<not> isSpace (hd p)) \<and>
       hd (hd (splitSentences cs)) = hd cs"
        using "2.IH"(2) [OF False] fix_cs ne last' by simp
      have p: "p \<noteq> []" "\<not> isSpace (last p)" using ih pp by simp_all
      have "join '' '' ((c # p) # ps) = c # join '' '' (p # ps)" by (rule join_Cons_head)
      also have "\<dots> = c # cs" using ih pp by simp
      finally have j: "join '' '' ((c # p) # ps) = c # cs" .
      have "\<forall>x \<in> set ps. x \<noteq> [] \<and> \<not> isSpace (last x)" using ih pp by simp
      moreover have "\<forall>x \<in> set ps. \<not> isSpace (hd x)" using ih pp by simp
      ultimately show ?thesis unfolding split using j p by simp
    qed
  qed
qed

lemma sentences_of_normal_form:
  assumes fixed_s: "collapseSpaces s = s" and ends: "s = [] \<or> (\<not> isSpace (hd s) \<and> \<not> isSpace (last s))"
  shows "join '' '' (sentencesOf s) = s"
proof (cases "s = []")
  case True
  then show ?thesis by (simp add: sentencesOf_def trim_def trimStart_def trimEnd_def)
next
  case False
  then have e: "\<not> isSpace (hd s)" "\<not> isSpace (last s)" using ends by simp_all
  from splitSentences_pieces [OF fixed_s False e(2)] have
    j: "join '' '' (splitSentences s) = s"
    and a: "\<forall>p \<in> set (splitSentences s). p \<noteq> [] \<and> \<not> isSpace (last p)"
    and t: "\<forall>p \<in> set (tl (splitSentences s)). \<not> isSpace (hd p)"
    and h: "hd (hd (splitSentences s)) = hd s"
    by simp_all
  obtain q qs where q: "splitSentences s = q # qs"
    using splitSentences_nonempty [of s] by (cases "splitSentences s") auto
  have fixed: "trim p = p \<and> p \<noteq> []" if "p \<in> set (splitSentences s)" for p
  proof -
    have "\<not> isSpace (hd p)"
    proof (cases "p = q")
      case True
      then show ?thesis using h q e by simp
    next
      case False
      then have "p \<in> set (tl (splitSentences s))" using that q by simp
      then show ?thesis using t by blast
    qed
    then show ?thesis using a that trim_fixed [of p] by blast
  qed
  then have "map trim (splitSentences s) = splitSentences s"
    by (simp add: map_idI)
  moreover have "filter (\<lambda>p. p \<noteq> []) (splitSentences s) = splitSentences s"
    using fixed by (simp add: filter_id_conv)
  ultimately show ?thesis using j by (simp add: sentencesOf_def)
qed

lemma normalizeSpace_normal_form:
  "collapseSpaces (normalizeSpace t) = normalizeSpace t \<and>
   (normalizeSpace t = [] \<or>
      (\<not> isSpace (hd (normalizeSpace t)) \<and> \<not> isSpace (last (normalizeSpace t))))"
proof (cases "trim t = []")
  case True
  then show ?thesis by (simp add: normalizeSpace_def)
next
  case False
  then have n: "normalizeSpace t = trim (collapseSpaces t)" by (simp add: normalizeSpace_def)
  have "collapseSpaces (trim (collapseSpaces t)) = trim (collapseSpaces t)"
    by (rule collapsed_trim) (rule collapseSpaces_idem)
  then show ?thesis using trim_ends [of "collapseSpaces t"] by (auto simp: n)
qed

lemma sentences_rebuild_text: "join '' '' (sentencesOf (normalizeSpace t)) = normalizeSpace t"
  using normalizeSpace_normal_form [of t] by (intro sentences_of_normal_form) simp_all

text \<open>
  Claim C4. For every text whose sentence count is at most \<open>n\<close>,
  \<open>summarizeExtractive text n\<close> is the list of all its sentences, each as the split
  produced it and in the split's order, joined by one space; this is the normalized
  text itself, character for character.
\<close>

theorem summarizeExtractive_few_sentences:
  assumes "int (length (sentencesOf (normalizeSpace text))) \<le> n"
  shows "summarizeExtractive text n = join '' '' (sentencesOf (normalizeSpace text)) \<and>
    summarizeExtractive text n = normalizeSpace text"
proof -
  have "summarizeExtractive text n = join '' '' (sentencesOf (normalizeSpace text))"
  proof (cases "normalizeSpace text = []")
    case True
    then show ?thesis by (simp add: summarizeExtractive_def sentencesOf_empty)
  next
    case False
    then show ?thesis using assms by (simp add: summarizeExtractive_def Let_def)
  qed
  then show ?thesis by (simp add: sentences_rebuild_text)
qed

theorem summarizeExtractive_few_sentences_witness:
  "int (length (sentencesOf (normalizeSpace ''Hello  there.  Is it so? Yes''))) \<le> 5 \<and>
   summarizeExtractive ''Hello  there.  Is it so? Yes'' 5
     = join '' '' (sentencesOf (normalizeSpace ''Hello  there.  Is it so? Yes'')) \<and>
   summarizeExtractive ''Hello  there.  Is it so? Yes'' 5 = ''Hello there. Is it so? Yes''"
proof -
  have h: "int (length (sentencesOf (normalizeSpace ''Hello  there.  Is it so? Yes''))) \<le> 5"
    by code_simp
  have "join '' '' (sentencesOf (normalizeSpace ''Hello  there.  Is it so? Yes''))
     = ''Hello there. Is it so? Yes''"
    by code_simp
  then show ?thesis using h summarizeExtractive_few_sentences [OF h] by simp
qed

section \<open>Properties of the record merger\<close>

lemma mergeSources_concat:
  "mergeSources tryRead ps rows
     = rows @ concat (map (\<lambda>p. case tryRead p of None \<Rightarrow> [] | Some arr \<Rightarrow> arr) ps)"
  by (induction ps arbitrary: rows) (auto split: option.splits)

lemma tryReadMetrics_items:
  "(case tryReadMetrics w p of None \<Rightarrow> [] | Some arr \<Rightarrow> arr) = sourceItems (w p)"
  by (simp add: tryReadMetrics_def sourceItems_def Let_def split: source.splits option.splits)

lemma tryReadItems_items:
  "(case tryReadItems w p of None \<Rightarrow> [] | Some arr \<Rightarrow> arr) = sourceItems (w p)"
  by (simp add: tryReadItems_def sourceItems_def split: source.splits option.splits)

text \<open>
  Claim C7. With no \<open>csv\<close> parameter and no \<open>JSON_PATH\<close>, and for every list of
  locations, the merge never stops at a source: the corpus is the concatenation, in the
  order of the locations, of the item arrays of the sources that loaded, a source that
  cannot be read, does not parse or has no array under \<open>items\<close> adding nothing. This
  holds for the loop of either route over any list \<open>ps\<close> and for the six default
  datasets.
\<close>

theorem default_merge_is_concatenation:
  "mergeSources (tryReadMetrics w) ps [] = concat (map (\<lambda>p. sourceItems (w p)) ps) \<and>
   mergeSources (tryReadItems w) ps [] = concat (map (\<lambda>p. sourceItems (w p)) ps) \<and>
   loadRows (tryReadMetrics w) [] [] publicDir
     = concat (map (\<lambda>p. sourceItems (w p)) (defaultPublicPaths publicDir)) \<and>
   loadRows (tryReadItems w) [] [] publicDir
     = concat (map (\<lambda>p. sourceItems (w p)) (defaultPublicPaths publicDir)) \<and>
   sourceItems Unreadable = [] \<and> sourceItems Unparsable = [] \<and>
   sourceItems (Payload None) = [] \<and> sourceItems (Payload (Some arr)) = arr"
  by (simp add: mergeSources_concat tryReadMetrics_items tryReadItems_items loadRows_def
      sourceItems_def)

text \<open>Sources with 2 items, a failed load and 3 items give the 5 records in order.\<close>

theorem default_merge_is_concatenation_witness:
  "mergeSources
     (tryReadItems (\<lambda>p. if p = ''a.json''
          then Payload (Some [noFields\<lparr>row_title := Some ''1''\<rparr>, noFields\<lparr>row_title := Some ''2''\<rparr>])
        else if p = ''c.json''
          then Payload (Some [noFields\<lparr>row_title := Some ''3''\<rparr>, noFields\<lparr>row_title := Some ''4''\<rparr>,
                 noFields\<lparr>row_title := Some ''5''\<rparr>])
        else Unreadable))
     [''a.json'', ''b.json'', ''c.json''] []
   = [noFields\<lparr>row_title := Some ''1''\<rparr>, noFields\<lparr>row_title := Some ''2''\<rparr>,
      noFields\<lparr>row_title := Some ''3''\<rparr>, noFields\<lparr>row_title := Some ''4''\<rparr>,
      noFields\<lparr>row_title := Some ''5''\<rparr>]"
  using default_merge_is_concatenation [of _ "[''a.json'', ''b.json'', ''c.json'']"]
  by (simp add: sourceItems_def)

section \<open>Properties of the aggregation\<close>

text \<open>
  Claim C8. For every corpus and every two queries, the facets of the two aggregations
  are the same lists of sections and of categories: they are computed from all rows,
  whatever the filters.
\<close>

theorem facets_ignore_filters:
  "agg_sections (aggregate rows qu1) = agg_sections (aggregate rows qu2) \<and>
   agg_categories (aggregate rows qu1) = agg_categories (aggregate rows qu2)"
  by (simp add: aggregate_def Let_def split: prod.splits)

text \<open>A row with a blank category or section falls in the bucket \<open>Uncategorized\<close> or \<open>unknown\<close>.\<close>

lemma bucketOf_blank:
  assumes "trim (orEmpty x) = []"
  shows "bucketOf x ''Uncategorized'' = ''Uncategorized'' \<and> bucketOf x ''unknown'' = ''unknown''"
proof -
  have u: "trim ''Uncategorized'' = ''Uncategorized''" and k: "trim ''unknown'' = ''unknown''"
    by code_simp+
  have c: "trim (orElse x d) = [] \<or> orElse x d = d" for d
    using assms by (auto simp: orElse_def orEmpty_def split: option.splits)
  have "bucketOf x d = d" if "trim d = d" for d
  proof (cases "trim (orElse x d) = []")
    case True
    then show ?thesis by (simp add: bucketOf_def Let_def)
  next
    case False
    then have "orElse x d = d" using c by blast
    then show ?thesis using that by (simp add: bucketOf_def Let_def)
  qed
  then show ?thesis using u k by simp
qed

lemma sum_mapSet:
  "sum_list (map snd (mapSet k v m)) = sum_list (map snd m) - getOr0 m k + v"
  by (induction m) (auto simp: getOr0_def)

lemma sum_increment: "sum_list (map snd (increment k m)) = sum_list (map snd m) + 1"
  by (simp add: increment_def sum_mapSet)

lemma keys_mapSet:
  "map fst (mapSet k v m) = (if k \<in> fst ` set m then map fst m else map fst m @ [k])"
  by (induction m) force+

lemma distinct_increment: "distinct (map fst m) \<Longrightarrow> distinct (map fst (increment k m))"
  by (simp add: increment_def keys_mapSet)

lemma tally_sums:
  "tally rs (c0, s0, y0) = (c, s, y) \<Longrightarrow>
   sum_list (map snd c) = sum_list (map snd c0) + int (length rs) \<and>
   sum_list (map snd s) = sum_list (map snd s0) + int (length rs) \<and>
   length y = length y0 + length rs"
proof (induction rs arbitrary: c0 s0 y0)
  case Nil
  then show ?case by simp
next
  case (Cons r rs)
  from Cons.prems have
    "tally rs (increment (bucketOf (row_category r) ''Uncategorized'') c0,
               increment (bucketOf (row_section r) ''unknown'') s0,
               y0 @ [toYmLabel r]) = (c, s, y)"
    by (simp add: Let_def)
  from Cons.IH [OF this] show ?case by (simp add: sum_increment)
qed

lemma countLabels_sum:
  "sum_list (map snd (countLabels ls m)) = sum_list (map snd m) + int (length ls)"
  by (induction ls arbitrary: m) (simp_all add: sum_increment)

lemma countLabels_distinct:
  "distinct (map fst m) \<Longrightarrow> distinct (map fst (countLabels ls m))"
  by (induction ls arbitrary: m) (simp_all add: distinct_increment)

lemma dedupe_fold_distinct:
  "distinct (acc @ xs) \<Longrightarrow>
   fold (\<lambda>x acc. if x \<in> set acc then acc else acc @ [x]) xs acc = acc @ xs"
  by (induction xs arbitrary: acc) auto

lemma dedupe_distinct: "distinct xs \<Longrightarrow> dedupe xs = xs"
  using dedupe_fold_distinct [of "[]" xs] by (simp add: dedupe_def)

lemma getOr0_keys: "distinct (map fst m) \<Longrightarrow> map (getOr0 m) (map fst m) = map snd m"
proof (induction m)
  case Nil
  show ?case by simp
next
  case (Cons a m)
  obtain k v where a: "a = (k, v)" by (cases a)
  have "getOr0 ((k, v) # m) x = getOr0 m x" if "x \<in> fst ` set m" for x
    using that Cons.prems a by (auto simp: getOr0_def)
  then have "map (getOr0 ((k, v) # m)) (map fst m) = map (getOr0 m) (map fst m)"
    by (intro map_cong) auto
  then show ?case using Cons a by (simp add: getOr0_def)
qed

lemma ym_counts_sum:
  assumes "distinct (map fst m)"
  shows "sum_list (map (getOr0 m) (sortYmLabels (map fst m))) = sum_list (map snd m)"
proof -
  have "sum_list (map (getOr0 m) (sortYmLabels (map fst m)))
      = sum_list (map (getOr0 m) (map fst m))"
    using assms by (simp only: sortYmLabels_def dedupe_distinct sum_list_sortBy)
  also have "\<dots> = sum_list (map snd m)"
    by (simp only: getOr0_keys [OF assms])
  finally show ?thesis .
qed

text \<open>
  Claim C10. For every corpus (empty or not) and every query, the counts of
  \<open>by_category\<close>, of \<open>by_section\<close> and of \<open>by_year_month\<close> each sum to \<open>total\<close>, the number
  of rows that pass the filters: every such row adds one to one bucket of each grouping.
\<close>

theorem aggregate_counts_sum_to_total:
  "sum_list (map snd (agg_by_category (aggregate rows qu))) = agg_total (aggregate rows qu) \<and>
   sum_list (map snd (agg_by_section (aggregate rows qu))) = agg_total (aggregate rows qu) \<and>
   sum_list (agg_counts (aggregate rows qu)) = agg_total (aggregate rows qu)"
proof (cases "rows = []")
  case True
  then show ?thesis by (simp add: aggregate_def)
next
  case False
  let ?filtered = "filter (keepMetrics qu) rows"
  obtain c s y where t: "tally ?filtered ([], [], []) = (c, s, y)"
    by (cases "tally ?filtered ([], [], [])") auto
  from tally_sums [OF t] have
    c: "sum_list (map snd c) = int (length ?filtered)"
    and s: "sum_list (map snd s) = int (length ?filtered)"
    and y: "length y = length ?filtered"
    by simp_all
  let ?m = "countLabels y []"
  have d: "distinct (map fst ?m)" by (rule countLabels_distinct) simp
  have "sum_list (map (getOr0 ?m) (sortYmLabels (map fst ?m))) = int (length y)"
    using ym_counts_sum [OF d] by (simp add: countLabels_sum)
  then show ?thesis
    using False t c s y by (simp add: aggregate_def Let_def sum_list_sortBy)
qed

section \<open>Properties of the filters\<close>

lemma startsWith_iff: "startsWith s k \<longleftrightarrow> (\<exists>r. s = k @ r)"
  by (induction s k rule: startsWith.induct) auto

lemma includesStr_iff: "includesStr s k \<longleftrightarrow> (\<exists>p r. s = p @ k @ r)"
proof (induction s)
  case Nil
  show ?case by auto
next
  case (Cons c cs)
  show ?case
  proof
    assume "includesStr (c # cs) k"
    then consider "startsWith (c # cs) k" | "includesStr cs k" by auto
    then show "\<exists>p r. c # cs = p @ k @ r"
    proof cases
      case 1
      then obtain r where "c # cs = [] @ k @ r" by (auto simp: startsWith_iff)
      then show ?thesis by blast
    next
      case 2
      then obtain p r where "cs = p @ k @ r" using Cons.IH by blast
      then have "c # cs = (c # p) @ k @ r" by simp
      then show ?thesis by blast
    qed
  next
    assume "\<exists>p r. c # cs = p @ k @ r"
    then obtain p r where d: "c # cs = p @ k @ r" by blast
    show "includesStr (c # cs) k"
    proof (cases p)
      case Nil
      then have "startsWith (c # cs) k" using d by (auto simp: startsWith_iff)
      then show ?thesis by simp
    next
      case (Cons a p')
      then have "cs = p' @ k @ r" using d by simp
      then have "includesStr cs k" using Cons.IH by blast
      then show ?thesis by simp
    qed
  qed
qed

lemma includesStr_append: "includesStr s k \<Longrightarrow> includesStr (s @ t) k"
proof -
  assume "includesStr s k"
  then obtain p r where "s = p @ k @ r" by (auto simp: includesStr_iff)
  then have "s @ t = p @ k @ (r @ t)" by simp
  then show ?thesis unfolding includesStr_iff by blast
qed

lemma toLowerCase_append: "toLowerCase (a @ b) = toLowerCase a @ toLowerCase b"
  by (simp add: toLowerCase_def)

text \<open>
  Claim C5, as amended. Let the query string, trimmed and lowercased, be non-empty. In
  both routes a row is kept only if that trimmed and lowercased string occurs in the
  lowercased title, a space and the summary of the row; and in both routes a row is
  kept exactly when it passes the section filter, the category filter, the text filter
  and the range filter together. The text filter of the metrics route searches the
  title and the summary, that of the items route the title alone.
\<close>

theorem query_filter_needs_substring:
  assumes "fQ qu \<noteq> []"
  shows
    "(keepMetrics qu r \<longrightarrow>
        includesStr (toLowerCase (orEmpty (row_title r) @ '' '' @ orEmpty (row_summary r))) (fQ qu)) \<and>
     (keepItems qu r \<longrightarrow>
        includesStr (toLowerCase (orEmpty (row_title r) @ '' '' @ orEmpty (row_summary r))) (fQ qu)) \<and>
     keepMetrics qu r =
       ((fSection qu = [] \<or> toLowerCase (trim (orEmpty (row_section r))) = fSection qu) \<and>
        (fCategory qu = [] \<or> toLowerCase (trim (orEmpty (row_category r))) = fCategory qu) \<and>
        includesStr (toLowerCase (orEmpty (row_title r) @ '' '' @ orEmpty (row_summary r))) (fQ qu) \<and>
        withinYmRange (fStart qu) (fEnd qu) (toYmLabel r)) \<and>
     keepItems qu r =
       ((fSection qu = [] \<or> toLowerCase (trim (orEmpty (row_section r))) = fSection qu) \<and>
        (fCategory qu = [] \<or> toLowerCase (trim (orEmpty (row_category r))) = fCategory qu) \<and>
        includesStr (toLowerCase (orEmpty (row_title r))) (fQ qu) \<and>
        withinYmRangeItems (fStart qu) (fEnd qu) (orEmpty (row_date_iso r)))"
proof -
  have m: "keepMetrics qu r =
       ((fSection qu = [] \<or> toLowerCase (trim (orEmpty (row_section r))) = fSection qu) \<and>
        (fCategory qu = [] \<or> toLowerCase (trim (orEmpty (row_category r))) = fCategory qu) \<and>
        includesStr (toLowerCase (orEmpty (row_title r) @ '' '' @ orEmpty (row_summary r))) (fQ qu) \<and>
        withinYmRange (fStart qu) (fEnd qu) (toYmLabel r))"
    using assms unfolding keepMetrics_def by auto
  have i: "keepItems qu r =
       ((fSection qu = [] \<or> toLowerCase (trim (orEmpty (row_section r))) = fSection qu) \<and>
        (fCategory qu = [] \<or> toLowerCase (trim (orEmpty (row_category r))) = fCategory qu) \<and>
        includesStr (toLowerCase (orEmpty (row_title r))) (fQ qu) \<and>
        withinYmRangeItems (fStart qu) (fEnd qu) (orEmpty (row_date_iso r)))"
    using assms unfolding keepItems_def by auto
  have t: "includesStr (toLowerCase (orEmpty (row_title r) @ '' '' @ orEmpty (row_summary r))) (fQ qu)"
    if "includesStr (toLowerCase (orEmpty (row_title r))) (fQ qu)"
    using that by (simp only: toLowerCase_append includesStr_append)
  show ?thesis using m i t by blast
qed

theorem query_filter_needs_substring_witness:
  "fQ (noParams\<lparr>q_q := Some '' Fish ''\<rparr>) \<noteq> [] \<and>
   keepMetrics (noParams\<lparr>q_q := Some '' Fish ''\<rparr>)
     (noFields\<lparr>row_title := Some ''Women and FISHERIES'', row_summary := Some ''A report''\<rparr>) \<and>
   keepItems (noParams\<lparr>q_q := Some '' Fish ''\<rparr>)
     (noFields\<lparr>row_title := Some ''Women and FISHERIES'', row_summary := Some ''A report''\<rparr>) \<and>
   includesStr
     (toLowerCase (orEmpty (row_title
          (noFields\<lparr>row_title := Some ''Women and FISHERIES'', row_summary := Some ''A report''\<rparr>))
        @ '' '' @ orEmpty (row_summary
          (noFields\<lparr>row_title := Some ''Women and FISHERIES'', row_summary := Some ''A report''\<rparr>))))
     (fQ (noParams\<lparr>q_q := Some '' Fish ''\<rparr>))"
proof -
  have h: "fQ (noParams\<lparr>q_q := Some '' Fish ''\<rparr>) \<noteq> []" by code_simp
  have k: "keepMetrics (noParams\<lparr>q_q := Some '' Fish ''\<rparr>)
     (noFields\<lparr>row_title := Some ''Women and FISHERIES'', row_summary := Some ''A report''\<rparr>)"
    by code_simp
  have l: "keepItems (noParams\<lparr>q_q := Some '' Fish ''\<rparr>)
     (noFields\<lparr>row_title := Some ''Women and FISHERIES'', row_summary := Some ''A report''\<rparr>)"
    by code_simp
  show ?thesis
    using h k l query_filter_needs_substring [OF h,
      of "noFields\<lparr>row_title := Some ''Women and FISHERIES'', row_summary := Some ''A report''\<rparr>"]
    by blast
qed

text \<open>
  For the query string as it is sent the rule fails, since both routes trim it first:
  with \<open>q\<close> equal to \<open>Fish\<close> between two spaces the row titled
  \<open>Women and FISHERIES\<close> is kept by both routes although the untrimmed string occurs
  neither in the title, a space and the summary nor in the title directly followed by
  the summary; and with \<open>q\<close> made of two spaces the text filter is off and the empty row
  is kept.
\<close>

theorem query_filter_untrimmed_counterexample:
  "orEmpty (q_q (noParams\<lparr>q_q := Some '' Fish ''\<rparr>)) \<noteq> [] \<and>
   keepMetrics (noParams\<lparr>q_q := Some '' Fish ''\<rparr>)
     (noFields\<lparr>row_title := Some ''Women and FISHERIES'', row_summary := Some ''A report''\<rparr>) \<and>
   keepItems (noParams\<lparr>q_q := Some '' Fish ''\<rparr>)
     (noFields\<lparr>row_title := Some ''Women and FISHERIES'', row_summary := Some ''A report''\<rparr>) \<and>
   \<not> includesStr (toLowerCase (''Women and FISHERIES'' @ '' '' @ ''A report''))
       (toLowerCase '' Fish '') \<and>
   \<not> includesStr (toLowerCase (''Women and FISHERIES'' @ ''A report''))
       (toLowerCase '' Fish '') \<and>
   keepMetrics (noParams\<lparr>q_q := Some ''  ''\<rparr>) noFields \<and>
   keepItems (noParams\<lparr>q_q := Some ''  ''\<rparr>) noFields \<and>
   \<not> includesStr (toLowerCase (orEmpty (row_title noFields) @ '' '' @ orEmpty (row_summary noFields)))
       (toLowerCase ''  '')"
  by code_simp

text \<open>A query string that is blank after trimming switches the text filter off.\<close>

lemma blank_query_filter_inactive:
  assumes "fQ qu = []"
  shows
    "keepMetrics qu r =
       ((fSection qu = [] \<or> toLowerCase (trim (orEmpty (row_section r))) = fSection qu) \<and>
        (fCategory qu = [] \<or> toLowerCase (trim (orEmpty (row_category r))) = fCategory qu) \<and>
        withinYmRange (fStart qu) (fEnd qu) (toYmLabel r))"
    and
    "keepItems qu r =
       ((fSection qu = [] \<or> toLowerCase (trim (orEmpty (row_section r))) = fSection qu) \<and>
        (fCategory qu = [] \<or> toLowerCase (trim (orEmpty (row_category r))) = fCategory qu) \<and>
        withinYmRangeItems (fStart qu) (fEnd qu) (orEmpty (row_date_iso r)))"
  using assms unfolding keepMetrics_def keepItems_def by auto

text \<open>A row whose summary alone holds the query string is counted but not listed.\<close>

lemma listing_query_skips_summary:
  "keepMetrics (noParams\<lparr>q_q := Some ''report''\<rparr>)
     (noFields\<lparr>row_title := Some ''Women and fisheries'', row_summary := Some ''A report''\<rparr>) \<and>
   \<not> keepItems (noParams\<lparr>q_q := Some ''report''\<rparr>)
     (noFields\<lparr>row_title := Some ''Women and fisheries'', row_summary := Some ''A report''\<rparr>)"
  by code_simp

section \<open>The year-month label in the two routes\<close>

text \<open>
  The label of the metrics route, in general. A date that starts with two non-empty
  parts separated by a hyphen gives these two parts; without a date, a positive year
  and month give the padded label; without a date and without a year or a month the
  label is \<open>Unknown\<close>. Numbers are exact integers here, as they are in JavaScript below
  \<open>2^53\<close>. The label of the items route does not look at the year and the month.
\<close>

lemma splitChar_nonempty: "splitChar sep s \<noteq> []"
  by (induction s) (auto split: list.splits)

lemma splitChar_no_sep: "sep \<notin> set s \<Longrightarrow> splitChar sep s = [s]"
  by (induction s) auto

lemma splitChar_first: "sep \<notin> set y \<Longrightarrow> splitChar sep (y @ sep # zs) = y # splitChar sep zs"
  by (induction y) auto

lemma toYmLabel_from_date_iso:
  assumes di: "trim (orEmpty (row_date_iso r)) = y @ ''-'' @ m @ rest"
    and y: "y \<noteq> []" "CHR ''-'' \<notin> set y"
    and m: "m \<noteq> []" "CHR ''-'' \<notin> set m"
    and rest: "rest = [] \<or> hd rest = CHR ''-''"
  shows "toYmLabel r = y @ ''-'' @ m"
proof -
  have "\<exists>ps. splitChar (CHR ''-'') (m @ rest) = m # ps"
  proof (cases rest)
    case Nil
    then show ?thesis using m by (simp add: splitChar_no_sep)
  next
    case (Cons c cs)
    then have "rest = CHR ''-'' # cs" using rest by simp
    then show ?thesis using m by (simp add: splitChar_first)
  qed
  then obtain ps where "splitChar (CHR ''-'') (m @ rest) = m # ps" by blast
  then have "splitChar (CHR ''-'') (y @ ''-'' @ m @ rest) = y # m # ps"
    using y by (simp add: splitChar_first)
  then show ?thesis using di y m by (simp add: toYmLabel_def Let_def)
qed

lemma digit_table:
  "\<forall>d \<in> set [0..<10]. digitVal (digitChar d) = d \<and> isDigit (digitChar d)"
  by code_simp

lemma digitVal_digitChar: "d < 10 \<Longrightarrow> digitVal (digitChar d) = d"
  using digit_table by simp

lemma isDigit_digitChar: "d < 10 \<Longrightarrow> isDigit (digitChar d)"
  using digit_table by simp

lemma isDigit_not_space: "isDigit c \<Longrightarrow> \<not> isSpace c"
  by (auto simp: isDigit_def isSpace_def)

lemma isDigit_not_sign: "isDigit c \<Longrightarrow> c \<noteq> CHR ''-'' \<and> c \<noteq> CHR ''+''"
  by (auto simp: isDigit_def)

lemma showNat_digits: "list_all isDigit (showNat n) \<and> showNat n \<noteq> []"
proof (induction n rule: showNat.induct)
  case (1 n)
  show ?case
  proof (cases "n < 10")
    case True
    then have "showNat n = [digitChar n]" by (subst showNat.simps) simp
    then show ?thesis using True by (simp add: isDigit_digitChar)
  next
    case False
    then have "showNat n = showNat (n div 10) @ [digitChar (n mod 10)]"
      by (subst showNat.simps) simp
    then show ?thesis using 1 False by (simp add: isDigit_digitChar)
  qed
qed

lemma digitsValue_snoc: "digitsValue (ds @ [c]) = 10 * digitsValue ds + digitVal c"
  by (simp add: digitsValue_def)

lemma digitsValue_showNat: "digitsValue (showNat n) = n"
proof (induction n rule: showNat.induct)
  case (1 n)
  show ?case
  proof (cases "n < 10")
    case True
    then have "showNat n = [digitChar n]" by (subst showNat.simps) simp
    then show ?thesis using True by (simp add: digitsValue_def digitVal_digitChar)
  next
    case False
    then have "showNat n = showNat (n div 10) @ [digitChar (n mod 10)]"
      by (subst showNat.simps) simp
    then have "digitsValue (showNat n) = 10 * digitsValue (showNat (n div 10)) + n mod 10"
      by (simp add: digitsValue_snoc digitVal_digitChar)
    then show ?thesis using 1 False by simp
  qed
qed

lemma trim_digits: "list_all isDigit s \<Longrightarrow> trim s = s"
proof (cases s rule: rev_cases)
  case Nil
  then show ?thesis by (simp add: trim_def trimStart_def trimEnd_def)
next
  case (snoc xs x)
  assume d: "list_all isDigit s"
  then have x: "\<not> isSpace x" using snoc by (simp add: isDigit_not_space)
  have "dropWhile isSpace s = s"
    using d by (cases s) (simp_all add: isDigit_not_space)
  then show ?thesis using snoc x by (simp add: trim_def trimStart_def trimEnd_def)
qed

lemma parseInt_digits:
  assumes "allDigits s"
  shows "parseInt s = Some (int (digitsValue s))"
proof -
  obtain c cs where s: "s = c # cs" using assms by (cases s) (auto simp: allDigits_def)
  have c: "isDigit c" and all: "list_all isDigit s" using assms s by (auto simp: allDigits_def)
  have "dropWhile isSpace s = s" using s c by (simp add: isDigit_not_space)
  moreover have "takeWhile isDigit s = s" using all by (simp add: list_all_iff)
  moreover have "s \<noteq> []" "hd s \<noteq> CHR ''-''" "hd s \<noteq> CHR ''+''"
    using s isDigit_not_sign [OF c] by simp_all
  ultimately show ?thesis by (simp add: parseInt_def Let_def del: takeWhile_eq_all_conv)
qed


lemma toYmLabel_from_year_month:
  assumes di: "trim (orEmpty (row_date_iso r)) = []"
    and y: "row_year r = Some (Num y)" "0 < y"
    and m: "row_month r = Some (Num m)" "0 < m"
  shows "toYmLabel r = padStart 4 (showNat (nat y)) @ ''-'' @ padStart 2 (showNat (nat m))"
proof -
  have fy: "trim (fieldText (row_year r)) = showNat (nat y)"
    using y showNat_digits [of "nat y"] by (simp add: fieldText_def showInt_def trim_digits)
  have fm: "trim (fieldText (row_month r)) = showNat (nat m)"
    using m showNat_digits [of "nat m"] by (simp add: fieldText_def showInt_def trim_digits)
  have ay: "allDigits (showNat (nat y))" and am: "allDigits (showNat (nat m))"
    using showNat_digits by (simp_all add: allDigits_def)
  have "numText (parseInt (showNat (nat y))) = showNat (nat y)"
    using parseInt_digits [OF ay] by (simp add: numText_def digitsValue_showNat showInt_def)
  moreover have "numText (parseInt (showNat (nat m))) = showNat (nat m)"
    using parseInt_digits [OF am] by (simp add: numText_def digitsValue_showNat showInt_def)
  ultimately show ?thesis using di fy fm ay am by (simp add: toYmLabel_def Let_def)
qed

lemma toYmLabel_unknown:
  assumes "trim (orEmpty (row_date_iso r)) = []"
    and "row_year r = None \<or> row_month r = None"
  shows "toYmLabel r = ''Unknown''"
  using assms
  by (auto simp: toYmLabel_def Let_def fieldText_def allDigits_def trim_def trimStart_def
      trimEnd_def)

lemma itemsYmLabel_ignores_year_month:
  "row_date_iso r = None \<Longrightarrow> itemsYmLabel (orEmpty (row_date_iso r)) = ''Unknown''"
  by (simp add: itemsYmLabel_def orEmpty_def slice_def)


text \<open>
  Claim C6. \<open>toYmLabel\<close> of the metrics route gives \<open>2024-03\<close> for the date
  \<open>2024-03-15\<close>, \<open>2023-07\<close> for the year 2023 and the month 7 without a date, and
  \<open>Unknown\<close> for the empty row. The items route reads the label off \<open>date_iso\<close> only: for
  the row with the year 2023 and the month 7 its label is \<open>Unknown\<close>, and with a range
  from \<open>2023-01\<close> the metrics route keeps the row and the items route drops it.
\<close>

theorem year_month_label_differs_in_listing:
  "toYmLabel (noFields\<lparr>row_date_iso := Some ''2024-03-15''\<rparr>) = ''2024-03'' \<and>
   toYmLabel (noFields\<lparr>row_year := Some (Num 2023), row_month := Some (Num 7)\<rparr>) = ''2023-07'' \<and>
   toYmLabel noFields = ''Unknown'' \<and>
   itemsYmLabel (orEmpty (row_date_iso
     (noFields\<lparr>row_year := Some (Num 2023), row_month := Some (Num 7)\<rparr>))) = ''Unknown'' \<and>
   keepMetrics (noParams\<lparr>q_startYm := Some ''2023-01''\<rparr>)
     (noFields\<lparr>row_year := Some (Num 2023), row_month := Some (Num 7)\<rparr>) \<and>
   \<not> keepItems (noParams\<lparr>q_startYm := Some ''2023-01''\<rparr>)
     (noFields\<lparr>row_year := Some (Num 2023), row_month := Some (Num 7)\<rparr>)"
  by code_simp

section \<open>Pagination of the listing\<close>

text \<open>
  When the parameters parse, the limit lies between 1 and 500, the offset is not
  negative, absent parameters give 20 and 0, and the page is the slice from \<open>offset\<close>
  to \<open>offset + limit\<close> of the sorted rows that pass the filters.
\<close>

lemma slice_to_zero: "0 \<le> k \<Longrightarrow> slice k 0 xs = []"
  by (simp add: slice_def Let_def)

lemma offsetOf_nonneg: "offsetOf qu = Some k \<Longrightarrow> 0 \<le> k"
  by (auto simp: offsetOf_def mathMax_def split: option.splits)

lemma limitOf_range: "limitOf qu = Some n \<Longrightarrow> 1 \<le> n \<and> n \<le> 500"
  by (auto simp: limitOf_def mathMax_def mathMin_def split: option.splits)

lemma limitOf_absent: "q_limit qu = None \<Longrightarrow> limitOf qu = Some 20"
  by (simp add: limitOf_def orElse_def) code_simp

lemma offsetOf_absent: "q_offset qu = None \<Longrightarrow> offsetOf qu = Some 0"
  by (simp add: offsetOf_def orElse_def) code_simp

lemma listing_page_numeric:
  assumes "limitOf qu = Some n" and "offsetOf qu = Some k" and "rows \<noteq> []"
  shows "list_items (listItems lc rows qu)
     = take (nat n) (drop (nat k) (sortBy (compareItems lc) (filter (keepItems qu) rows)))"
proof -
  have "0 \<le> k" "1 \<le> n" using assms offsetOf_nonneg limitOf_range by auto
  then have "slice k (k + n) xs = take (nat n) (drop (nat k) xs)" for xs :: "row list"
    by (auto simp: slice_def Let_def min_def)
  then show ?thesis using assms
    by (simp add: listItems_def Let_def sliceNum_def numAdd_def)
qed

lemma listing_page_not_a_number:
  assumes "limitOf qu = None"
  shows "list_items (listItems lc rows qu) = []"
proof (cases "rows = []")
  case True
  then show ?thesis by (simp add: listItems_def)
next
  case False
  have "sliceNum (offsetOf qu) (numAdd (offsetOf qu) None) xs = []" for xs :: "row list"
    using offsetOf_nonneg [of qu]
    by (cases "offsetOf qu") (simp_all add: sliceNum_def numAdd_def slice_to_zero)
  then show ?thesis using assms False by (simp add: listItems_def Let_def)
qed

text \<open>
  Claim C9. For the parameter \<open>limit=abc\<close> the limit of the handler is \<open>NaN\<close>, not a
  number from 1 to 500, and the page of a listing with two rows is empty while
  \<open>total\<close> is 2.
\<close>

theorem listing_limit_not_clamped:
  "limitOf (noParams\<lparr>q_limit := Some ''abc''\<rparr>) = None \<and>
   listItems lc
     [noFields\<lparr>row_title := Some ''a''\<rparr>, noFields\<lparr>row_title := Some ''b''\<rparr>]
     (noParams\<lparr>q_limit := Some ''abc''\<rparr>)
   = \<lparr>list_total = 2, list_items = []\<rparr>"
proof -
  have l: "limitOf (noParams\<lparr>q_limit := Some ''abc''\<rparr>) = None" by code_simp
  have k: "filter (keepItems (noParams\<lparr>q_limit := Some ''abc''\<rparr>))
      [noFields\<lparr>row_title := Some ''a''\<rparr>, noFields\<lparr>row_title := Some ''b''\<rparr>]
    = [noFields\<lparr>row_title := Some ''a''\<rparr>, noFields\<lparr>row_title := Some ''b''\<rparr>]"
    by code_simp
  have "list_total (listItems lc
     [noFields\<lparr>row_title := Some ''a''\<rparr>, noFields\<lparr>row_title := Some ''b''\<rparr>]
     (noParams\<lparr>q_limit := Some ''abc''\<rparr>)) = 2"
    using k by (simp add: listItems_def Let_def)
  moreover have "list_items (listItems lc
     [noFields\<lparr>row_title := Some ''a''\<rparr>, noFields\<lparr>row_title := Some ''b''\<rparr>]
     (noParams\<lparr>q_limit := Some ''abc''\<rparr>)) = []"
    using l by (rule listing_page_not_a_number)
  ultimately show ?thesis using l by (cases "listItems lc
     [noFields\<lparr>row_title := Some ''a''\<rparr>, noFields\<lparr>row_title := Some ''b''\<rparr>]
     (noParams\<lparr>q_limit := Some ''abc''\<rparr>)") simp
qed

end
